theory Spec2Isabelle
  imports Complex_Main
begin

section \<open>Shared Python notions\<close>

text \<open>
  Exceptions of the two scripts are values: every function that can raise returns
  \<open>py_error + 'a\<close>, with \<open>Inl\<close> the exception.

  Numbers: pixel coordinates, areas and ratios are Python floats in the scripts. They are
  modelled as exact reals (\<open>/\<close> is exact division), image sizes and identifiers as
  unbounded integers. Binary rounding of the floats is outside this model.
\<close>

datatype py_error =
    KeyError | ValueError | IndexError | ZeroDivisionError | AxisError | TypeError
  | NotFoundError | UnidentifiedImageError
  | FileExistsError | FileNotFoundError | IsADirectoryError | NotADirectoryError
  | SameFileError

text \<open>\<open>os.path.join a b\<close> for two components (posixpath).\<close>

definition os_path_join :: "string \<Rightarrow> string \<Rightarrow> string" where
  "os_path_join a b =
     (if b \<noteq> [] \<and> hd b = CHR ''/'' then b
      else if a = [] \<or> last a = CHR ''/'' then a @ b
      else a @ ''/'' @ b)"

section \<open>coco\_to\_tfrecord\_converter.py\<close>

subsection \<open>Data\<close>

text \<open>The image dict of the COCO document, with the keys the converter reads.\<close>

record image =
  im_height :: int
  im_width :: int
  im_file_name :: string
  im_id :: int

text \<open>
  An annotation dict, with the keys the converter reads. The segmentation payload is
  only handed to the mask library, so its type is a parameter.
\<close>

record 'seg annotation =
  a_bbox :: "real list"
  a_iscrowd :: int
  a_category_id :: int
  a_area :: real
  a_image_id :: int
  a_segmentation :: 'seg

record category =
  c_id :: int
  c_name :: string

text \<open>
  A decoded mask is a numpy array of \<open>uint8\<close>: two-dimensional (rows of pixels) for a
  single run-length encoding, three-dimensional (rows of pixels of channels) for a list
  of them.
\<close>

datatype ndarray = Arr2 "nat list list" | Arr3 "nat list list list"

text \<open>The feature dict of the record that \<open>create_tf_example\<close> builds, key by key.\<close>

record tf_example =
  ft_image_height :: int
  ft_image_width :: int
  ft_image_filename :: string
  ft_image_source_id :: string
  ft_image_key_sha256 :: string
  ft_image_encoded :: string
  ft_image_format :: string
  ft_image_object_bbox_xmin :: "real list"
  ft_image_object_bbox_xmax :: "real list"
  ft_image_object_bbox_ymin :: "real list"
  ft_image_object_bbox_ymax :: "real list"
  ft_image_object_class_text :: "string list"
  ft_image_object_is_crowd :: "int list"
  ft_image_object_area :: "real list"
  ft_image_object_mask :: "string list option"

text \<open>
  The collaborators outside the repository: reading a file (\<open>tf.io.gfile\<close>), opening an
  image (\<open>PIL.Image.open\<close>), the SHA-256 hex digest, decoding a segmentation
  (\<open>mask.frPyObjects\<close> followed by \<open>mask.decode\<close>), saving an array as PNG
  (\<open>PIL.Image.fromarray\<close> followed by \<open>save\<close>) and serialising a record
  (\<open>SerializeToString\<close>).
\<close>

record 'seg env =
  gfile_read :: "string \<Rightarrow> string option"
  pil_open :: "string \<Rightarrow> bool"
  sha256_hexdigest :: "string \<Rightarrow> string"
  mask_decode :: "'seg \<Rightarrow> int \<Rightarrow> int \<Rightarrow> py_error + ndarray"
  png_save :: "ndarray \<Rightarrow> py_error + string"
  serialize_to_string :: "tf_example \<Rightarrow> string"

text \<open>The local lists of \<open>create_tf_example\<close> and its counter, as one loop state.\<close>

record acc =
  xmin :: "real list"
  xmax :: "real list"
  ymin :: "real list"
  ymax :: "real list"
  is_crowd :: "int list"
  category_names :: "string list"
  category_ids :: "int list"
  area :: "real list"
  encoded_mask_png :: "string list"
  num_annotations_skipped :: nat

definition acc0 :: acc where
  "acc0 = \<lparr>xmin = [], xmax = [], ymin = [], ymax = [], is_crowd = [],
           category_names = [], category_ids = [], area = [],
           encoded_mask_png = [], num_annotations_skipped = 0\<rparr>"

subsection \<open>Masks\<close>

text \<open>The maximum of a non-empty list, as \<open>np.amax\<close> reduces one pixel's channels.\<close>

fun amax_list :: "nat list \<Rightarrow> nat" where
  "amax_list [] = 0"
| "amax_list (x # xs) = fold max xs x"

text \<open>
  \<open>np.amax(binary_mask, axis=2)\<close>: a two-dimensional array has no axis 2, and a
  reduction over an axis of length zero has no identity.
\<close>

definition amax_axis2 :: "ndarray \<Rightarrow> py_error + ndarray" where
  "amax_axis2 m =
     (case m of
        Arr2 _ \<Rightarrow> Inl AxisError
      | Arr3 rows \<Rightarrow>
          if \<exists>row \<in> set rows. \<exists>px \<in> set row. px = [] then Inl ValueError
          else Inr (Arr2 (map (map amax_list) rows)))"

text \<open>Lines 130 to 138: the PNG bytes appended for one annotation when masks are on.\<close>

definition encode_mask :: "'seg env \<Rightarrow> 'seg annotation \<Rightarrow> int \<Rightarrow> int \<Rightarrow> py_error + string" where
  "encode_mask e object_annotations image_height image_width =
     (case mask_decode e (a_segmentation object_annotations) image_height image_width of
        Inl err \<Rightarrow> Inl err
      | Inr binary_mask \<Rightarrow>
          (case (if a_iscrowd object_annotations = 0 then amax_axis2 binary_mask
                 else Inr binary_mask) of
             Inl err \<Rightarrow> Inl err
           | Inr binary_mask' \<Rightarrow> png_save e binary_mask'))"

subsection \<open>The annotation loop of \<open>create_tf_example\<close>\<close>

text \<open>The two tests of lines 113 and 116 that skip an annotation.\<close>

definition skipped :: "int \<Rightarrow> int \<Rightarrow> real \<Rightarrow> real \<Rightarrow> real \<Rightarrow> real \<Rightarrow> bool" where
  "skipped image_height image_width x y width height \<longleftrightarrow>
     (width \<le> 0 \<or> height \<le> 0) \<or>
     (x + width > real_of_int image_width \<or> y + height > real_of_int image_height)"

text \<open>
  One pass through the body of the loop (lines 112 to 138). Unpacking a box that has
  not four entries raises \<open>ValueError\<close>, a division by a zero image size raises
  \<open>ZeroDivisionError\<close>, a category id that is not in the index raises \<open>KeyError\<close>.
\<close>

definition annotation_step ::
  "'seg env \<Rightarrow> int \<Rightarrow> int \<Rightarrow> (int \<rightharpoonup> category) \<Rightarrow> bool \<Rightarrow> acc \<Rightarrow> 'seg annotation
     \<Rightarrow> py_error + acc" where
  "annotation_step e image_height image_width category_index include_masks s object_annotations =
     (case a_bbox object_annotations of
        [x, y, width, height] \<Rightarrow>
          if width \<le> 0 \<or> height \<le> 0 then
            Inr (s\<lparr>num_annotations_skipped := num_annotations_skipped s + 1\<rparr>)
          else if x + width > real_of_int image_width \<or> y + height > real_of_int image_height then
            Inr (s\<lparr>num_annotations_skipped := num_annotations_skipped s + 1\<rparr>)
          else if image_width = 0 then Inl ZeroDivisionError
          else if image_height = 0 then Inl ZeroDivisionError
          else
            (case category_index (a_category_id object_annotations) of
               None \<Rightarrow> Inl KeyError
             | Some cat \<Rightarrow>
                 let s1 = s\<lparr>xmin := xmin s @ [x / real_of_int image_width],
                            xmax := xmax s @ [(x + width) / real_of_int image_width],
                            ymin := ymin s @ [y / real_of_int image_height],
                            ymax := ymax s @ [(y + height) / real_of_int image_height],
                            is_crowd := is_crowd s @ [a_iscrowd object_annotations],
                            category_ids := category_ids s @ [a_category_id object_annotations],
                            category_names := category_names s @ [c_name cat],
                            area := area s @ [a_area object_annotations]\<rparr>
                 in if include_masks then
                      (case encode_mask e object_annotations image_height image_width of
                         Inl err \<Rightarrow> Inl err
                       | Inr png \<Rightarrow> Inr (s1\<lparr>encoded_mask_png := encoded_mask_png s1 @ [png]\<rparr>))
                    else Inr s1)
      | _ \<Rightarrow> Inl ValueError)"

fun annotations_loop ::
  "'seg env \<Rightarrow> int \<Rightarrow> int \<Rightarrow> (int \<rightharpoonup> category) \<Rightarrow> bool \<Rightarrow> acc \<Rightarrow> 'seg annotation list
     \<Rightarrow> py_error + acc" where
  "annotations_loop e image_height image_width category_index include_masks s [] = Inr s"
| "annotations_loop e image_height image_width category_index include_masks s (a # as) =
     (case annotation_step e image_height image_width category_index include_masks s a of
        Inl err \<Rightarrow> Inl err
      | Inr s' \<Rightarrow> annotations_loop e image_height image_width category_index include_masks s' as)"

subsection \<open>\<open>create_tf_example\<close>\<close>

text \<open>\<open>str\<close> of an integer, for the source id of the record.\<close>

fun str_nat :: "nat \<Rightarrow> string" where
  "str_nat n =
     (if n < 10 then [''0123456789'' ! n]
      else str_nat (n div 10) @ [''0123456789'' ! (n mod 10)])"

definition str_int :: "int \<Rightarrow> string" where
  "str_int i = (if i < 0 then ''-'' @ str_nat (nat (- i)) else str_nat (nat i))"

definition create_tf_example ::
  "'seg env \<Rightarrow> image \<Rightarrow> 'seg annotation list \<Rightarrow> string \<Rightarrow> (int \<rightharpoonup> category) \<Rightarrow> bool
     \<Rightarrow> py_error + (string \<times> tf_example \<times> nat)" where
  "create_tf_example e img annotations_list image_dir category_index include_masks =
     (let image_height = im_height img;
          image_width = im_width img;
          filename = im_file_name img;
          image_id = im_id img;
          full_path = os_path_join image_dir filename
      in case gfile_read e full_path of
           None \<Rightarrow> Inl NotFoundError
         | Some encoded_jpg \<Rightarrow>
             (if \<not> pil_open e encoded_jpg then Inl UnidentifiedImageError
              else
                (let key = sha256_hexdigest e encoded_jpg
                 in (case annotations_loop e image_height image_width category_index
                           include_masks acc0 annotations_list of
                       Inl err \<Rightarrow> Inl err
                     | Inr s \<Rightarrow>
                         Inr (key,
                              \<lparr>ft_image_height = image_height,
                               ft_image_width = image_width,
                               ft_image_filename = filename,
                               ft_image_source_id = str_int image_id,
                               ft_image_key_sha256 = key,
                               ft_image_encoded = encoded_jpg,
                               ft_image_format = ''jpeg'',
                               ft_image_object_bbox_xmin = xmin s,
                               ft_image_object_bbox_xmax = xmax s,
                               ft_image_object_bbox_ymin = ymin s,
                               ft_image_object_bbox_ymax = ymax s,
                               ft_image_object_class_text = category_names s,
                               ft_image_object_is_crowd = is_crowd s,
                               ft_image_object_area = area s,
                               ft_image_object_mask =
                                 (if include_masks then Some (encoded_mask_png s) else None)\<rparr>,
                              num_annotations_skipped s)))))"

text \<open>The box of an annotation that unpacks, and whether the loop keeps the annotation.\<close>

definition box_x :: "'seg annotation \<Rightarrow> real" where "box_x a = a_bbox a ! 0"
definition box_y :: "'seg annotation \<Rightarrow> real" where "box_y a = a_bbox a ! 1"
definition box_width :: "'seg annotation \<Rightarrow> real" where "box_width a = a_bbox a ! 2"
definition box_height :: "'seg annotation \<Rightarrow> real" where "box_height a = a_bbox a ! 3"

definition is_skipped :: "int \<Rightarrow> int \<Rightarrow> 'seg annotation \<Rightarrow> bool" where
  "is_skipped image_height image_width a \<longleftrightarrow>
     skipped image_height image_width (box_x a) (box_y a) (box_width a) (box_height a)"

subsection \<open>What the loop computes, annotation by annotation\<close>

text \<open>
  The annotations that the loop keeps, and the two effects it has on its state: counting
  a skipped annotation, and appending one entry to every sequence for a kept one.
  \<open>run\<close> folds the two over a list; \<open>annotations_loop\<close> is shown below to return
  \<open>run\<close>'s state whenever it returns.
\<close>

definition kept :: "int \<Rightarrow> int \<Rightarrow> 'seg annotation list \<Rightarrow> 'seg annotation list" where
  "kept image_height image_width as = filter (\<lambda>a. \<not> is_skipped image_height image_width a) as"

definition mask_png :: "'seg env \<Rightarrow> int \<Rightarrow> int \<Rightarrow> 'seg annotation \<Rightarrow> string" where
  "mask_png e image_height image_width a =
     (case encode_mask e a image_height image_width of Inr png \<Rightarrow> png | Inl _ \<Rightarrow> [])"

definition class_text :: "(int \<rightharpoonup> category) \<Rightarrow> 'seg annotation \<Rightarrow> string" where
  "class_text category_index a =
     (case category_index (a_category_id a) of Some cat \<Rightarrow> c_name cat | None \<Rightarrow> [])"

definition keep ::
  "'seg env \<Rightarrow> int \<Rightarrow> int \<Rightarrow> (int \<rightharpoonup> category) \<Rightarrow> bool \<Rightarrow> acc \<Rightarrow> 'seg annotation \<Rightarrow> acc" where
  "keep e image_height image_width category_index include_masks s a =
     s\<lparr>xmin := xmin s @ [box_x a / real_of_int image_width],
       xmax := xmax s @ [(box_x a + box_width a) / real_of_int image_width],
       ymin := ymin s @ [box_y a / real_of_int image_height],
       ymax := ymax s @ [(box_y a + box_height a) / real_of_int image_height],
       is_crowd := is_crowd s @ [a_iscrowd a],
       category_ids := category_ids s @ [a_category_id a],
       category_names := category_names s @ [class_text category_index a],
       area := area s @ [a_area a],
       encoded_mask_png := encoded_mask_png s @
         (if include_masks then [mask_png e image_height image_width a] else [])\<rparr>"

definition skip :: "acc \<Rightarrow> acc" where
  "skip s = s\<lparr>num_annotations_skipped := num_annotations_skipped s + 1\<rparr>"

fun run ::
  "'seg env \<Rightarrow> int \<Rightarrow> int \<Rightarrow> (int \<rightharpoonup> category) \<Rightarrow> bool \<Rightarrow> acc \<Rightarrow> 'seg annotation list \<Rightarrow> acc" where
  "run e image_height image_width category_index include_masks s [] = s"
| "run e image_height image_width category_index include_masks s (a # as) =
     run e image_height image_width category_index include_masks
       (if is_skipped image_height image_width a then skip s
        else keep e image_height image_width category_index include_masks s a) as"

text \<open>
  What an annotation needs for the loop body not to raise: a box of four numbers and,
  when it is kept, non-zero image sizes, a known category and a mask that encodes.
\<close>

definition step_ok ::
  "'seg env \<Rightarrow> int \<Rightarrow> int \<Rightarrow> (int \<rightharpoonup> category) \<Rightarrow> bool \<Rightarrow> 'seg annotation \<Rightarrow> bool" where
  "step_ok e image_height image_width category_index include_masks a \<longleftrightarrow>
     length (a_bbox a) = 4 \<and>
     (\<not> is_skipped image_height image_width a \<longrightarrow>
        image_width \<noteq> 0 \<and> image_height \<noteq> 0 \<and>
        category_index (a_category_id a) \<noteq> None \<and>
        (include_masks \<longrightarrow> (\<exists>png. encode_mask e a image_height image_width = Inr png)))"

subsection \<open>\<open>_create_tf_record_from_coco_annotations\<close>\<close>

text \<open>
  The parsed annotation document. The code tests whether the key \<open>annotations\<close> is
  there before it reads it, so that key is optional here; reading it when it is absent
  raises \<open>KeyError\<close>.
\<close>

record 'seg groundtruth =
  g_images :: "image list"
  g_annotations :: "'seg annotation list option"
  g_categories :: "category list"

text \<open>\<open>label_map_util.create_category_index\<close>: a dict from each category's id to it.\<close>

definition create_category_index :: "category list \<Rightarrow> (int \<rightharpoonup> category)" where
  "create_category_index categories = fold (\<lambda>cat m. m(c_id cat \<mapsto> cat)) categories Map.empty"

text \<open>Lines 203 to 207: the annotations of each image id, in document order.\<close>

definition index_annotation ::
  "'seg annotation \<Rightarrow> (int \<rightharpoonup> 'seg annotation list) \<Rightarrow> (int \<rightharpoonup> 'seg annotation list)" where
  "index_annotation annotation annotations_index =
     (let image_id = a_image_id annotation;
          annotations_index1 =
            (if annotations_index image_id = None then annotations_index(image_id \<mapsto> [])
             else annotations_index)
      in annotations_index1(image_id \<mapsto> the (annotations_index1 image_id) @ [annotation]))"

text \<open>Lines 210 to 214: images without annotations get an empty list and are counted.\<close>

fun index_missing ::
  "image list \<Rightarrow> (int \<rightharpoonup> 'seg annotation list) \<times> nat \<Rightarrow> (int \<rightharpoonup> 'seg annotation list) \<times> nat" where
  "index_missing [] (annotations_index, missing_annotation_count) =
     (annotations_index, missing_annotation_count)"
| "index_missing (img # images) (annotations_index, missing_annotation_count) =
     (if annotations_index (im_id img) = None
      then index_missing images (annotations_index(im_id img \<mapsto> []), missing_annotation_count + 1)
      else index_missing images (annotations_index, missing_annotation_count))"

text \<open>
  \<open>tf_record_creation_util.open_sharded_output_tfrecords\<close> returns one writer per
  shard, \<open>range(num_shards)\<close> of them. A writer is the list of the strings written to it.
\<close>

definition open_sharded_output_tfrecords :: "int \<Rightarrow> string list list" where
  "open_sharded_output_tfrecords num_shards = replicate (nat num_shards) []"

text \<open>Python's \<open>%\<close> on integers: the sign of the result is the divisor's, as with \<open>mod\<close>.\<close>

definition py_mod :: "int \<Rightarrow> int \<Rightarrow> py_error + int" where
  "py_mod a b = (if b = 0 then Inl ZeroDivisionError else Inr (a mod b))"

text \<open>\<open>output_tfrecords[shard_idx].write(s)\<close>, with Python's list indexing.\<close>

definition write_shard :: "string list list \<Rightarrow> int \<Rightarrow> string \<Rightarrow> py_error + string list list" where
  "write_shard output_tfrecords shard_idx s =
     (let n = int (length output_tfrecords);
          j = (if shard_idx < 0 then n + shard_idx else shard_idx)
      in if 0 \<le> j \<and> j < n
         then Inr (output_tfrecords[nat j := output_tfrecords ! nat j @ [s]])
         else Inl IndexError)"

text \<open>
  Lines 220 to 228: the loop over \<open>enumerate(images)\<close>, from index \<open>idx\<close> on. Its state is
  the shards and the running total of skipped annotations.
\<close>

fun images_loop ::
  "'seg env \<Rightarrow> (int \<rightharpoonup> 'seg annotation list) \<Rightarrow> string \<Rightarrow> (int \<rightharpoonup> category) \<Rightarrow> bool \<Rightarrow> int
     \<Rightarrow> nat \<Rightarrow> image list \<Rightarrow> string list list \<times> nat \<Rightarrow> py_error + string list list \<times> nat" where
  "images_loop e annotations_index image_dir category_index include_masks num_shards idx []
     (output_tfrecords, total_num_annotations_skipped) =
       Inr (output_tfrecords, total_num_annotations_skipped)"
| "images_loop e annotations_index image_dir category_index include_masks num_shards idx
     (img # images) (output_tfrecords, total_num_annotations_skipped) =
     (case annotations_index (im_id img) of
        None \<Rightarrow> Inl KeyError
      | Some annotations_list \<Rightarrow>
          (case create_tf_example e img annotations_list image_dir category_index include_masks of
             Inl err \<Rightarrow> Inl err
           | Inr (_, tf_example, num_annotations_skipped1) \<Rightarrow>
               (case py_mod (int idx) num_shards of
                  Inl err \<Rightarrow> Inl err
                | Inr shard_idx \<Rightarrow>
                    (case write_shard output_tfrecords shard_idx
                            (serialize_to_string e tf_example) of
                       Inl err \<Rightarrow> Inl err
                     | Inr output_tfrecords1 \<Rightarrow>
                         images_loop e annotations_index image_dir category_index include_masks
                           num_shards (Suc idx) images
                           (output_tfrecords1,
                            total_num_annotations_skipped + num_annotations_skipped1)))))"

text \<open>The annotation index of a document, with its count of images without annotations.\<close>

definition build_annotations_index ::
  "'seg groundtruth \<Rightarrow> py_error + (int \<rightharpoonup> 'seg annotation list) \<times> nat" where
  "build_annotations_index groundtruth_data =
     (case g_annotations groundtruth_data of
        None \<Rightarrow> Inl KeyError
      | Some annotations \<Rightarrow>
          Inr (index_missing (g_images groundtruth_data)
                 (fold index_annotation annotations Map.empty, 0)))"

text \<open>
  The function: the shards as they are when it returns, the number of images without
  annotations and the number of skipped annotations (the two numbers it logs).
\<close>

definition create_tf_record_from_coco_annotations ::
  "'seg env \<Rightarrow> 'seg groundtruth \<Rightarrow> string \<Rightarrow> bool \<Rightarrow> int
     \<Rightarrow> py_error + string list list \<times> nat \<times> nat" where
  "create_tf_record_from_coco_annotations e groundtruth_data image_dir include_masks num_shards =
     (let output_tfrecords = open_sharded_output_tfrecords num_shards;
          images = g_images groundtruth_data;
          category_index = create_category_index (g_categories groundtruth_data)
      in case build_annotations_index groundtruth_data of
           Inl err \<Rightarrow> Inl err
         | Inr (annotations_index, missing_annotation_count) \<Rightarrow>
             (case images_loop e annotations_index image_dir category_index include_masks
                     num_shards 0 images (output_tfrecords, 0) of
                Inl err \<Rightarrow> Inl err
              | Inr (output_tfrecords1, total_num_annotations_skipped) \<Rightarrow>
                  Inr (output_tfrecords1, missing_annotation_count,
                       total_num_annotations_skipped)))"

text \<open>
  The serialised record of the image at enumeration index \<open>i\<close> of a document, when
  \<open>create_tf_example\<close> returns one for it.
\<close>

definition record_of ::
  "'seg env \<Rightarrow> (int \<rightharpoonup> 'seg annotation list) \<Rightarrow> string \<Rightarrow> (int \<rightharpoonup> category) \<Rightarrow> bool
     \<Rightarrow> image \<Rightarrow> string" where
  "record_of e annotations_index image_dir category_index include_masks img =
     (case annotations_index (im_id img) of
        None \<Rightarrow> []
      | Some annotations_list \<Rightarrow>
          (case create_tf_example e img annotations_list image_dir category_index include_masks of
             Inl _ \<Rightarrow> []
           | Inr (_, tf_example, _) \<Rightarrow> serialize_to_string e tf_example))"

section \<open>partition\_dataset.py\<close>

subsection \<open>The file system\<close>

text \<open>
  The part of the file system the script touches: the directories that exist and the
  regular files with their contents, both by path. Paths are compared as strings, and
  file names are byte strings (ASCII names are what the model covers). The order of
  \<open>fs_files\<close> and \<open>fs_dirs\<close> stands for the arbitrary order in which \<open>os.listdir\<close>
  enumerates a directory.
\<close>

record filesystem =
  fs_dirs :: "string list"
  fs_files :: "(string \<times> string) list"

definition os_path_exists :: "filesystem \<Rightarrow> string \<Rightarrow> bool" where
  "os_path_exists fs p \<longleftrightarrow> p \<in> set (fs_dirs fs) \<or> p \<in> set (map fst (fs_files fs))"

text \<open>The proper ancestors of a path: its prefixes that end before a separator.\<close>

definition ancestors :: "string \<Rightarrow> string list" where
  "ancestors p = map (\<lambda>i. take i p) (filter (\<lambda>i. p ! i = CHR ''/'') [1..<length p])"

text \<open>
  \<open>os.makedirs(p)\<close> with its default \<open>exist_ok=False\<close>: the leaf must not exist; the
  leaf and the missing ancestors are created.
\<close>

definition os_makedirs :: "filesystem \<Rightarrow> string \<Rightarrow> py_error + filesystem" where
  "os_makedirs fs p =
     (if os_path_exists fs p then Inl FileExistsError
      else Inr (fs\<lparr>fs_dirs := fs_dirs fs @
                  filter (\<lambda>d. d \<notin> set (fs_dirs fs)) (ancestors p @ [p])\<rparr>))"

text \<open>The name under which path \<open>p\<close> is an entry of directory \<open>d\<close>, if it is one.\<close>

definition entry_name :: "string \<Rightarrow> string \<Rightarrow> string option" where
  "entry_name d p =
     (let pre = os_path_join d []
      in if take (length pre) p = pre \<and> length pre < length p \<and>
            CHR ''/'' \<notin> set (drop (length pre) p)
         then Some (drop (length pre) p) else None)"

definition os_listdir :: "filesystem \<Rightarrow> string \<Rightarrow> py_error + string list" where
  "os_listdir fs d =
     (if d \<in> set (fs_dirs fs)
      then Inr (remdups (List.map_filter (entry_name d) (map fst (fs_files fs) @ fs_dirs fs)))
      else if d \<in> set (map fst (fs_files fs)) then Inl NotADirectoryError
      else Inl FileNotFoundError)"

text \<open>
  \<open>os.path.dirname(p)\<close>: the path up to its last separator, without trailing
  separators unless it consists of separators only.
\<close>

definition os_path_dirname :: "string \<Rightarrow> string" where
  "os_path_dirname p =
     (let head = rev (dropWhile (\<lambda>c. c \<noteq> CHR ''/'') (rev p))
      in if head \<noteq> [] \<and> head \<noteq> replicate (length head) CHR ''/''
         then rev (dropWhile (\<lambda>c. c = CHR ''/'') (rev head)) else head)"

text \<open>
  \<open>shutil.copyfile(src, dst)\<close>: the source must be a regular file, the destination must
  not be a directory and must lie in an existing directory; the destination then holds
  the source's contents.
\<close>

definition copyfile :: "filesystem \<Rightarrow> string \<Rightarrow> string \<Rightarrow> py_error + filesystem" where
  "copyfile fs src dst =
     (case map_of (fs_files fs) src of
        None \<Rightarrow> if src \<in> set (fs_dirs fs) then Inl IsADirectoryError else Inl FileNotFoundError
      | Some contents \<Rightarrow>
          if src = dst then Inl SameFileError
          else if dst \<in> set (fs_dirs fs) then Inl IsADirectoryError
          else if os_path_dirname dst \<notin> set (fs_dirs fs) then Inl FileNotFoundError
          else Inr (fs\<lparr>fs_files := filter (\<lambda>(p, _). p \<noteq> dst) (fs_files fs) @ [(dst, contents)]\<rparr>))"

subsection \<open>\<open>os.path.splitext\<close>\<close>

text \<open>\<open>p.rfind(c)\<close>: the last index of \<open>c\<close> in \<open>p\<close>, or \<open>-1\<close>.\<close>

definition rfind :: "char \<Rightarrow> string \<Rightarrow> int" where
  "rfind c p = (case filter (\<lambda>i. p ! i = c) (rev [0..<length p]) of [] \<Rightarrow> - 1 | i # _ \<Rightarrow> int i)"

text \<open>
  \<open>os.path.splitext(p)[0]\<close>: the path up to its last dot, when that dot comes after the
  last separator and after a character of the file name that is not a dot.
\<close>

definition splitext_root :: "string \<Rightarrow> string" where
  "splitext_root p =
     (let sepIndex = rfind CHR ''/'' p;
          dotIndex = rfind CHR ''.'' p
      in if dotIndex > sepIndex \<and>
            list_ex (\<lambda>k. p ! k \<noteq> CHR ''.'') [nat (sepIndex + 1)..<nat dotIndex]
         then take (nat dotIndex) p else p)"

subsection \<open>The regular expression of line 24\<close>

text \<open>
  The constructs of Python's \<open>re\<close> that the pattern uses: a character class, the dot
  (any character but a newline), a literal character, sequence, alternative, \<open>+\<close> and
  \<open>$\<close> (the end of the string, or just before a newline that ends it). Groups do not
  change what matches.
\<close>

datatype regex =
    Cls "char \<Rightarrow> bool"
  | Dot
  | Chr char
  | Seq regex regex
  | Alt regex regex
  | Plus regex
  | Eol

text \<open>All the rests that a match of the expression at the start of a string can leave.\<close>

function rests :: "regex \<Rightarrow> string \<Rightarrow> string list" where
  "rests (Cls P) s = (case s of [] \<Rightarrow> [] | c # cs \<Rightarrow> if P c then [cs] else [])"
| "rests Dot s = (case s of [] \<Rightarrow> [] | c # cs \<Rightarrow> if c \<noteq> CHR 0x0A then [cs] else [])"
| "rests (Chr a) s = (case s of [] \<Rightarrow> [] | c # cs \<Rightarrow> if c = a then [cs] else [])"
| "rests (Seq r1 r2) s = concat (map (rests r2) (rests r1 s))"
| "rests (Alt r1 r2) s = rests r1 s @ rests r2 s"
| "rests (Plus r) s =
     concat (map (\<lambda>t. if length t < length s then t # rests (Plus r) t else [t]) (rests r s))"
| "rests Eol s = (if s = [] \<or> s = [CHR 0x0A] then [s] else [])"
  by pat_completeness auto
termination
  by (relation "measures [\<lambda>(r, s). size r, \<lambda>(r, s). length s]") auto

text \<open>The equation for \<open>+\<close> unfolds itself, so it is applied by hand.\<close>

declare rests.simps(6) [simp del]

text \<open>\<open>re.search\<close> finds a match that starts anywhere in the string.\<close>

fun re_search :: "regex \<Rightarrow> string \<Rightarrow> bool" where
  "re_search r [] \<longleftrightarrow> rests r [] \<noteq> []"
| "re_search r (c # cs) \<longleftrightarrow> rests r (c # cs) \<noteq> [] \<or> re_search r cs"

text \<open>The class \<open>[A-Za-z0-9\s_\\\.:]\<close>; \<open>\s\<close> on the ASCII range.\<close>

definition is_space :: "char \<Rightarrow> bool" where
  "is_space c \<longleftrightarrow> (let n = (of_char c :: nat) in (9 \<le> n \<and> n \<le> 13) \<or> (28 \<le> n \<and> n \<le> 32))"

definition name_class :: "char \<Rightarrow> bool" where
  "name_class c \<longleftrightarrow>
     (let n = (of_char c :: nat)
      in (65 \<le> n \<and> n \<le> 90) \<or> (97 \<le> n \<and> n \<le> 122) \<or> (48 \<le> n \<and> n \<le> 57) \<or>
         is_space c \<or> c = CHR ''_'' \<or> c = CHR 0x5C \<or> c = CHR ''.'' \<or> c = CHR '':'')"

definition lit :: "string \<Rightarrow> regex" where
  "lit s = foldr (\<lambda>c r. Seq (Chr c) r) (butlast s) (Chr (last s))"

text \<open>\<open>([A-Za-z0-9\s_\\\.:]+)(.jpg|.jpeg|.png)$\<close>\<close>

definition image_pattern :: regex where
  "image_pattern =
     Seq (Plus (Cls name_class))
       (Seq (Alt (Seq Dot (lit ''jpg'')) (Alt (Seq Dot (lit ''jpeg'')) (Seq Dot (lit ''png''))))
            Eol)"

subsection \<open>\<open>iterate_dir\<close>\<close>

text \<open>
  \<open>random.randint(a, b)\<close>: the generator is a parameter, \<open>rng i\<close> being the raw value of
  draw number \<open>i\<close>, which is reduced into the inclusive range. An empty range raises
  \<open>ValueError\<close>. Every outcome of the real generator is the outcome for some \<open>rng\<close>.
\<close>

definition random_randint :: "(nat \<Rightarrow> nat) \<Rightarrow> nat \<Rightarrow> int \<Rightarrow> int \<Rightarrow> py_error + int" where
  "random_randint rng i a b =
     (if a > b then Inl ValueError else Inr (a + int (rng i mod nat (b - a + 1))))"

text \<open>
  Lines 28 to 35, from iteration \<open>i\<close> on with \<open>k\<close> iterations to go: the file system and
  the list \<open>images\<close> when the loop ends, and the exception that ended it, if any.
\<close>

fun test_loop ::
  "(nat \<Rightarrow> nat) \<Rightarrow> string \<Rightarrow> string \<Rightarrow> bool \<Rightarrow> nat \<Rightarrow> nat \<Rightarrow> filesystem \<Rightarrow> string list
     \<Rightarrow> filesystem \<times> string list \<times> py_error option" where
  "test_loop rng source_dir test_dir cop_xml i 0 fs images = (fs, images, None)"
| "test_loop rng source_dir test_dir cop_xml i (Suc k) fs images =
     (case random_randint rng i 0 (int (length images) - 1) of
        Inl err \<Rightarrow> (fs, images, Some err)
      | Inr idx \<Rightarrow>
          (let filename = images ! nat idx
           in (case copyfile fs (os_path_join source_dir filename)
                      (os_path_join test_dir filename) of
                 Inl err \<Rightarrow> (fs, images, Some err)
               | Inr fs1 \<Rightarrow>
                   (case (if cop_xml
                          then (let xml_filename = splitext_root filename @ ''.xml''
                                in copyfile fs1 (os_path_join source_dir xml_filename)
                                     (os_path_join test_dir xml_filename))
                          else Inr fs1) of
                      Inl err \<Rightarrow> (fs1, images, Some err)
                    | Inr fs2 \<Rightarrow>
                        test_loop rng source_dir test_dir cop_xml (Suc i) k fs2
                          (remove1 (images ! nat idx) images)))))"

text \<open>Lines 37 to 42: the loop over the images that are left.\<close>

fun train_loop ::
  "string \<Rightarrow> string \<Rightarrow> string \<Rightarrow> bool \<Rightarrow> filesystem \<Rightarrow> string list
     \<Rightarrow> filesystem \<times> py_error option" where
  "train_loop source_dir des_dir train_dir cop_xml fs [] = (fs, None)"
| "train_loop source_dir des_dir train_dir cop_xml fs (filename # images) =
     (case copyfile fs (os_path_join source_dir filename) (os_path_join train_dir filename) of
        Inl err \<Rightarrow> (fs, Some err)
      | Inr fs1 \<Rightarrow>
          (case (if cop_xml
                 then (let xml_filename = splitext_root filename @ ''xml''
                       in copyfile fs1 (os_path_join source_dir xml_filename)
                            (os_path_join des_dir xml_filename))
                 else Inr fs1) of
             Inl err \<Rightarrow> (fs1, Some err)
           | Inr fs2 \<Rightarrow> train_loop source_dir des_dir train_dir cop_xml fs2 images))"

text \<open>Line 24: the names of the source directory that the pattern finds.\<close>

definition list_images :: "filesystem \<Rightarrow> string \<Rightarrow> py_error + string list" where
  "list_images fs source_dir =
     (case os_listdir fs source_dir of
        Inl err \<Rightarrow> Inl err
      | Inr names \<Rightarrow> Inr (filter (re_search image_pattern) names))"

text \<open>Lines 19 to 22: the two tests that guard \<open>os.makedirs\<close>.\<close>

definition make_dirs :: "filesystem \<Rightarrow> string \<Rightarrow> string \<Rightarrow> py_error + filesystem" where
  "make_dirs fs train_dir test_dir =
     (case (if os_path_exists fs train_dir then os_makedirs fs train_dir else Inr fs) of
        Inl err \<Rightarrow> Inl err
      | Inr fs1 \<Rightarrow> if os_path_exists fs1 test_dir then os_makedirs fs1 test_dir else Inr fs1)"

text \<open>
  The function: the file system when the call ends, and the exception that ended it, if
  any.
\<close>

definition iterate_dir ::
  "(nat \<Rightarrow> nat) \<Rightarrow> filesystem \<Rightarrow> string \<Rightarrow> string \<Rightarrow> real \<Rightarrow> bool \<Rightarrow> filesystem \<times> py_error option" where
  "iterate_dir rng fs source_dir des_dir ratio cop_xml =
     (let train_dir = os_path_join des_dir ''train'';
          test_dir = os_path_join des_dir ''test''
      in (case make_dirs fs train_dir test_dir of
            Inl err \<Rightarrow> (fs, Some err)
          | Inr fs1 \<Rightarrow>
              (case list_images fs1 source_dir of
                 Inl err \<Rightarrow> (fs1, Some err)
               | Inr images \<Rightarrow>
                   (let num_images = length images;
                        num_test_images = \<lceil>ratio * real num_images\<rceil>
                    in (case test_loop rng source_dir test_dir cop_xml 0 (nat num_test_images)
                               fs1 images of
                          (fs2, images1, Some err) \<Rightarrow> (fs2, Some err)
                        | (fs2, images1, None) \<Rightarrow>
                            train_loop source_dir des_dir train_dir cop_xml fs2 images1)))))"

text \<open>The names of the regular files in a directory: what has been copied into it.\<close>

definition files_in :: "filesystem \<Rightarrow> string \<Rightarrow> string list" where
  "files_in fs d = List.map_filter (entry_name d) (map fst (fs_files fs))"

subsection \<open>The claimed extension test\<close>

text \<open>
  The spec's words for line 24: the name ends with \<open>.jpg\<close>, \<open>.jpeg\<close> or \<open>.png\<close>,
  compared case-insensitively.
\<close>

definition lower :: "char \<Rightarrow> char" where
  "lower c =
     (case map_of (zip ''ABCDEFGHIJKLMNOPQRSTUVWXYZ'' ''abcdefghijklmnopqrstuvwxyz'') c of
        Some l \<Rightarrow> l
      | None \<Rightarrow> c)"

definition ends_with :: "string \<Rightarrow> string \<Rightarrow> bool" where
  "ends_with s suffix \<longleftrightarrow> length suffix \<le> length s \<and> drop (length s - length suffix) s = suffix"

definition spec_is_image :: "string \<Rightarrow> bool" where
  "spec_is_image f \<longleftrightarrow>
     ends_with (map lower f) ''.jpg'' \<or> ends_with (map lower f) ''.jpeg'' \<or>
     ends_with (map lower f) ''.png''"

section \<open>Concrete inputs\<close>

text \<open>
  A small run of the converter: segmentations are given decoded, the PNG of a
  two-dimensional mask is written as one digit per pixel, and a record is serialised as
  its source id.
\<close>

definition example_env :: "ndarray env" where
  "example_env =
     \<lparr>gfile_read = (\<lambda>p. if p = ''images/a.jpg'' then Some ''JPEG'' else None),
      pil_open = (\<lambda>_. True),
      sha256_hexdigest = (\<lambda>b. ''sha256 of '' @ b),
      mask_decode = (\<lambda>seg h w. Inr seg),
      png_save = (\<lambda>m. case m of
                         Arr2 rows \<Rightarrow> Inr (concat (map (map (\<lambda>v. if v = 0 then CHR ''0'' else CHR ''1'')) rows))
                       | Arr3 _ \<Rightarrow> Inl TypeError),
      serialize_to_string = ft_image_source_id\<rparr>"

definition example_image :: image where
  "example_image = \<lparr>im_height = 100, im_width = 100, im_file_name = ''a.jpg'', im_id = 7\<rparr>"

definition example_index :: "int \<rightharpoonup> category" where
  "example_index = [1 \<mapsto> \<lparr>c_id = 1, c_name = ''cat''\<rparr>]"

definition box :: "real list \<Rightarrow> ndarray annotation" where
  "box b = \<lparr>a_bbox = b, a_iscrowd = 0, a_category_id = 1, a_area = 1200, a_image_id = 7,
            a_segmentation = Arr3 [[[0, 1], [0, 0]]]\<rparr>"

definition example_record :: "real list \<Rightarrow> real list \<Rightarrow> real list \<Rightarrow> real list \<Rightarrow> bool \<Rightarrow> tf_example" where
  "example_record xs xs' ys ys' include_masks =
     \<lparr>ft_image_height = 100, ft_image_width = 100, ft_image_filename = ''a.jpg'',
      ft_image_source_id = ''7'', ft_image_key_sha256 = ''sha256 of JPEG'',
      ft_image_encoded = ''JPEG'', ft_image_format = ''jpeg'',
      ft_image_object_bbox_xmin = xs, ft_image_object_bbox_xmax = xs',
      ft_image_object_bbox_ymin = ys, ft_image_object_bbox_ymax = ys',
      ft_image_object_class_text = [''cat''], ft_image_object_is_crowd = [0],
      ft_image_object_area = [1200],
      ft_image_object_mask = (if include_masks then Some [''10''] else None)\<rparr>"

text \<open>A document of three images, the first of them with one annotation.\<close>

definition example_document :: "ndarray groundtruth" where
  "example_document =
     \<lparr>g_images = [example_image, example_image\<lparr>im_id := 8\<rparr>, example_image\<lparr>im_id := 9\<rparr>],
      g_annotations = Some [box [10, 20, 30, 40]],
      g_categories = [\<lparr>c_id = 1, c_name = ''cat''\<rparr>]\<rparr>"

text \<open>
  A source directory with three images and their annotation files, and an output
  directory: once without the \<open>train\<close> and \<open>test\<close> directories, once with them.
\<close>

definition example_files :: "(string \<times> string) list" where
  "example_files =
     [(''src/a.jpg'', ''A''), (''src/a.xml'', ''XA''),
      (''src/b.jpg'', ''B''), (''src/b.xml'', ''XB''),
      (''src/c.png'', ''C''), (''src/c.xml'', ''XC'')]"

definition fs_absent :: filesystem where
  "fs_absent = \<lparr>fs_dirs = [''src'', ''out''], fs_files = example_files\<rparr>"

definition fs_present :: filesystem where
  "fs_present =
     \<lparr>fs_dirs = [''src'', ''out'', ''out/train'', ''out/test''], fs_files = example_files\<rparr>"

definition fs_upper :: filesystem where
  "fs_upper = \<lparr>fs_dirs = [''src''], fs_files = [(''src/A.JPG'', ''A''), (''src/abjpg'', ''B'')]\<rparr>"

section \<open>Properties of \<open>create_tf_example\<close>\<close>

subsection \<open>The loop body\<close>

lemma annotation_step_skip:
  assumes "annotation_step e H W ci im s a = Inr s'" and "is_skipped H W a"
  shows "s' = skip s"
  using assms
  by (auto simp: annotation_step_def is_skipped_def skipped_def box_x_def box_y_def
      box_width_def box_height_def skip_def split: list.splits if_splits)

lemma annotation_step_keep:
  assumes "annotation_step e H W ci im s a = Inr s'" and "\<not> is_skipped H W a"
  shows "s' = keep e H W ci im s a"
  using assms
  by (auto simp: annotation_step_def is_skipped_def skipped_def box_x_def box_y_def
      box_width_def box_height_def keep_def class_text_def mask_png_def Let_def
      split: list.splits if_splits option.splits sum.splits)

lemma annotation_step_ok:
  assumes "annotation_step e H W ci im s a = Inr s'"
  shows "step_ok e H W ci im a"
  using assms
  by (auto simp: annotation_step_def step_ok_def is_skipped_def skipped_def box_x_def box_y_def
      box_width_def box_height_def Let_def
      split: list.splits if_splits option.splits sum.splits)

lemma bbox_unpack:
  assumes "length b = 4"
  shows "b = [b ! 0, b ! 1, b ! 2, b ! 3]"
proof -
  from assms obtain x y w h where "b = [x, y, w, h]"
    by (auto simp: length_Suc_conv numeral_eq_Suc)
  then show ?thesis by simp
qed

lemma step_ok_step:
  assumes "step_ok e H W ci im a"
  shows "annotation_step e H W ci im s a =
           Inr (if is_skipped H W a then skip s else keep e H W ci im s a)"
proof -
  from assms have len: "length (a_bbox a) = 4" by (simp add: step_ok_def)
  obtain x y w h where b: "a_bbox a = [x, y, w, h]"
    using bbox_unpack [OF len] by blast
  show ?thesis
  proof (cases "is_skipped H W a")
    case True
    then show ?thesis
      by (auto simp: annotation_step_def b is_skipped_def skipped_def box_x_def box_y_def
          box_width_def box_height_def skip_def)
  next
    case False
    with assms obtain cat where
      cat: "ci (a_category_id a) = Some cat" and sz: "W \<noteq> 0" "H \<noteq> 0" and
      png: "im \<Longrightarrow> \<exists>png. encode_mask e a H W = Inr png"
      by (auto simp: step_ok_def)
    from False have ns: "\<not> (w \<le> 0 \<or> h \<le> 0)"
      "\<not> (x + w > real_of_int W \<or> y + h > real_of_int H)"
      by (auto simp: is_skipped_def skipped_def b box_x_def box_y_def box_width_def
          box_height_def)
    show ?thesis
    proof (cases im)
      case True
      with png obtain p where p: "encode_mask e a H W = Inr p" by blast
      with True False ns cat sz show ?thesis
        by (simp add: annotation_step_def b keep_def class_text_def mask_png_def box_x_def
            box_y_def box_width_def box_height_def)
    next
      case nomask: False
      with False ns cat sz show ?thesis
        by (simp add: annotation_step_def b keep_def class_text_def box_x_def
            box_y_def box_width_def box_height_def)
    qed
  qed
qed

subsection \<open>The loop\<close>

lemma annotations_loop_run:
  "annotations_loop e H W ci im s as = Inr s' \<Longrightarrow> s' = run e H W ci im s as"
proof (induction as arbitrary: s)
  case Nil
  then show ?case by simp
next
  case (Cons a as)
  from Cons.prems obtain s1 where
    st: "annotation_step e H W ci im s a = Inr s1" and
    lp: "annotations_loop e H W ci im s1 as = Inr s'"
    by (auto split: sum.splits)
  have "s1 = (if is_skipped H W a then skip s else keep e H W ci im s a)"
    using annotation_step_skip [OF st] annotation_step_keep [OF st] by simp
  with Cons.IH [OF lp] show ?case by simp
qed

lemma annotations_loop_ok:
  "annotations_loop e H W ci im s as = Inr s' \<Longrightarrow> \<forall>a \<in> set as. step_ok e H W ci im a"
proof (induction as arbitrary: s)
  case Nil
  then show ?case by simp
next
  case (Cons a as)
  from Cons.prems obtain s1 where
    st: "annotation_step e H W ci im s a = Inr s1" and
    lp: "annotations_loop e H W ci im s1 as = Inr s'"
    by (auto split: sum.splits)
  from annotation_step_ok [OF st] Cons.IH [OF lp] show ?case by simp
qed

text \<open>The loop returns whenever no annotation makes its body raise.\<close>

lemma annotations_loop_returns:
  "\<forall>a \<in> set as. step_ok e H W ci im a \<Longrightarrow>
     annotations_loop e H W ci im s as = Inr (run e H W ci im s as)"
  by (induction as arbitrary: s) (simp_all add: step_ok_step)

lemma run_xmin:
  "xmin (run e H W ci im s as) = xmin s @ map (\<lambda>a. box_x a / real_of_int W) (kept H W as)"
  by (induction as arbitrary: s) (simp_all add: kept_def skip_def keep_def)

lemma run_xmax:
  "xmax (run e H W ci im s as) =
     xmax s @ map (\<lambda>a. (box_x a + box_width a) / real_of_int W) (kept H W as)"
  by (induction as arbitrary: s) (simp_all add: kept_def skip_def keep_def)

lemma run_ymin:
  "ymin (run e H W ci im s as) = ymin s @ map (\<lambda>a. box_y a / real_of_int H) (kept H W as)"
  by (induction as arbitrary: s) (simp_all add: kept_def skip_def keep_def)

lemma run_ymax:
  "ymax (run e H W ci im s as) =
     ymax s @ map (\<lambda>a. (box_y a + box_height a) / real_of_int H) (kept H W as)"
  by (induction as arbitrary: s) (simp_all add: kept_def skip_def keep_def)

lemma run_is_crowd:
  "is_crowd (run e H W ci im s as) = is_crowd s @ map a_iscrowd (kept H W as)"
  by (induction as arbitrary: s) (simp_all add: kept_def skip_def keep_def)

lemma run_category_names:
  "category_names (run e H W ci im s as) =
     category_names s @ map (class_text ci) (kept H W as)"
  by (induction as arbitrary: s) (simp_all add: kept_def skip_def keep_def)

lemma run_area: "area (run e H W ci im s as) = area s @ map a_area (kept H W as)"
  by (induction as arbitrary: s) (simp_all add: kept_def skip_def keep_def)

lemma run_encoded_mask_png:
  "encoded_mask_png (run e H W ci im s as) =
     encoded_mask_png s @ (if im then map (mask_png e H W) (kept H W as) else [])"
  by (induction as arbitrary: s) (simp_all add: kept_def skip_def keep_def)

lemma run_num_annotations_skipped:
  "num_annotations_skipped (run e H W ci im s as) =
     num_annotations_skipped s + length (filter (is_skipped H W) as)"
  by (induction as arbitrary: s) (simp_all add: skip_def keep_def)

subsection \<open>The record\<close>

text \<open>The record that \<open>create_tf_example\<close> returns, field by field.\<close>

lemma create_tf_example_Inr:
  assumes "create_tf_example e img as image_dir ci im = Inr (key, ex, n)"
  shows "\<exists>encoded_jpg.
     gfile_read e (os_path_join image_dir (im_file_name img)) = Some encoded_jpg \<and>
     key = sha256_hexdigest e encoded_jpg \<and>
     annotations_loop e (im_height img) (im_width img) ci im acc0 as =
       Inr (run e (im_height img) (im_width img) ci im acc0 as) \<and>
     ex = \<lparr>ft_image_height = im_height img,
           ft_image_width = im_width img,
           ft_image_filename = im_file_name img,
           ft_image_source_id = str_int (im_id img),
           ft_image_key_sha256 = key,
           ft_image_encoded = encoded_jpg,
           ft_image_format = ''jpeg'',
           ft_image_object_bbox_xmin = xmin (run e (im_height img) (im_width img) ci im acc0 as),
           ft_image_object_bbox_xmax = xmax (run e (im_height img) (im_width img) ci im acc0 as),
           ft_image_object_bbox_ymin = ymin (run e (im_height img) (im_width img) ci im acc0 as),
           ft_image_object_bbox_ymax = ymax (run e (im_height img) (im_width img) ci im acc0 as),
           ft_image_object_class_text =
             category_names (run e (im_height img) (im_width img) ci im acc0 as),
           ft_image_object_is_crowd = is_crowd (run e (im_height img) (im_width img) ci im acc0 as),
           ft_image_object_area = area (run e (im_height img) (im_width img) ci im acc0 as),
           ft_image_object_mask =
             (if im then Some (encoded_mask_png (run e (im_height img) (im_width img) ci im acc0 as))
              else None)\<rparr> \<and>
     n = num_annotations_skipped (run e (im_height img) (im_width img) ci im acc0 as)"
proof -
  from assms obtain encoded_jpg s where
    rd: "gfile_read e (os_path_join image_dir (im_file_name img)) = Some encoded_jpg" and
    lp: "annotations_loop e (im_height img) (im_width img) ci im acc0 as = Inr s" and
    res: "key = sha256_hexdigest e encoded_jpg"
         "ex = \<lparr>ft_image_height = im_height img,
           ft_image_width = im_width img,
           ft_image_filename = im_file_name img,
           ft_image_source_id = str_int (im_id img),
           ft_image_key_sha256 = sha256_hexdigest e encoded_jpg,
           ft_image_encoded = encoded_jpg,
           ft_image_format = ''jpeg'',
           ft_image_object_bbox_xmin = xmin s,
           ft_image_object_bbox_xmax = xmax s,
           ft_image_object_bbox_ymin = ymin s,
           ft_image_object_bbox_ymax = ymax s,
           ft_image_object_class_text = category_names s,
           ft_image_object_is_crowd = is_crowd s,
           ft_image_object_area = area s,
           ft_image_object_mask = (if im then Some (encoded_mask_png s) else None)\<rparr>"
         "n = num_annotations_skipped s"
    by (auto simp: create_tf_example_def Let_def split: option.splits if_splits sum.splits)
  have s: "s = run e (im_height img) (im_width img) ci im acc0 as"
    using annotations_loop_run [OF lp] .
  from rd lp res show ?thesis unfolding s by simp
qed

lemma create_tf_example_fields:
  assumes "create_tf_example e img as image_dir ci im = Inr (key, ex, n)"
  defines "H \<equiv> im_height img" and "W \<equiv> im_width img"
  shows "ft_image_object_bbox_xmin ex = map (\<lambda>a. box_x a / real_of_int W) (kept H W as)"
    and "ft_image_object_bbox_xmax ex =
           map (\<lambda>a. (box_x a + box_width a) / real_of_int W) (kept H W as)"
    and "ft_image_object_bbox_ymin ex = map (\<lambda>a. box_y a / real_of_int H) (kept H W as)"
    and "ft_image_object_bbox_ymax ex =
           map (\<lambda>a. (box_y a + box_height a) / real_of_int H) (kept H W as)"
    and "ft_image_object_class_text ex = map (class_text ci) (kept H W as)"
    and "ft_image_object_is_crowd ex = map a_iscrowd (kept H W as)"
    and "ft_image_object_area ex = map a_area (kept H W as)"
    and "ft_image_object_mask ex =
           (if im then Some (map (mask_png e H W) (kept H W as)) else None)"
    and "n = length (filter (is_skipped H W) as)"
    and "\<forall>a \<in> set as. step_ok e H W ci im a"
proof -
  from create_tf_example_Inr [OF assms(1)] obtain encoded_jpg where
    lp: "annotations_loop e H W ci im acc0 as = Inr (run e H W ci im acc0 as)" and
    ex: "ex = \<lparr>ft_image_height = H,
           ft_image_width = W,
           ft_image_filename = im_file_name img,
           ft_image_source_id = str_int (im_id img),
           ft_image_key_sha256 = key,
           ft_image_encoded = encoded_jpg,
           ft_image_format = ''jpeg'',
           ft_image_object_bbox_xmin = xmin (run e H W ci im acc0 as),
           ft_image_object_bbox_xmax = xmax (run e H W ci im acc0 as),
           ft_image_object_bbox_ymin = ymin (run e H W ci im acc0 as),
           ft_image_object_bbox_ymax = ymax (run e H W ci im acc0 as),
           ft_image_object_class_text = category_names (run e H W ci im acc0 as),
           ft_image_object_is_crowd = is_crowd (run e H W ci im acc0 as),
           ft_image_object_area = area (run e H W ci im acc0 as),
           ft_image_object_mask =
             (if im then Some (encoded_mask_png (run e H W ci im acc0 as)) else None)\<rparr>" and
    n: "n = num_annotations_skipped (run e H W ci im acc0 as)"
    unfolding H_def W_def by blast
  show "ft_image_object_bbox_xmin ex = map (\<lambda>a. box_x a / real_of_int W) (kept H W as)"
    by (simp add: ex run_xmin acc0_def)
  show "ft_image_object_bbox_xmax ex =
           map (\<lambda>a. (box_x a + box_width a) / real_of_int W) (kept H W as)"
    by (simp add: ex run_xmax acc0_def)
  show "ft_image_object_bbox_ymin ex = map (\<lambda>a. box_y a / real_of_int H) (kept H W as)"
    by (simp add: ex run_ymin acc0_def)
  show "ft_image_object_bbox_ymax ex =
           map (\<lambda>a. (box_y a + box_height a) / real_of_int H) (kept H W as)"
    by (simp add: ex run_ymax acc0_def)
  show "ft_image_object_class_text ex = map (class_text ci) (kept H W as)"
    by (simp add: ex run_category_names acc0_def)
  show "ft_image_object_is_crowd ex = map a_iscrowd (kept H W as)"
    by (simp add: ex run_is_crowd acc0_def)
  show "ft_image_object_area ex = map a_area (kept H W as)"
    by (simp add: ex run_area acc0_def)
  show "ft_image_object_mask ex =
           (if im then Some (map (mask_png e H W) (kept H W as)) else None)"
    by (simp add: ex run_encoded_mask_png acc0_def)
  show "n = length (filter (is_skipped H W) as)"
    by (simp add: n run_num_annotations_skipped acc0_def)
  show "\<forall>a \<in> set as. step_ok e H W ci im a"
    using annotations_loop_ok [OF lp] .
qed

text \<open>
  \<open>create_tf_example\<close> returns a record whenever the image file can be read and opened
  and no annotation makes the loop body raise.
\<close>

lemma create_tf_example_returns:
  assumes "gfile_read e (os_path_join image_dir (im_file_name img)) = Some encoded_jpg"
    and "pil_open e encoded_jpg"
    and "\<forall>a \<in> set as. step_ok e (im_height img) (im_width img) ci im a"
  shows "\<exists>ex. create_tf_example e img as image_dir ci im =
           Inr (sha256_hexdigest e encoded_jpg, ex,
                length (filter (is_skipped (im_height img) (im_width img)) as))"
  using assms(1,2) annotations_loop_returns [OF assms(3), of acc0]
  by (simp add: create_tf_example_def Let_def run_num_annotations_skipped acc0_def)


subsection \<open>Evaluation on the concrete inputs\<close>

lemmas example_defs =
  create_tf_example_def example_env_def example_image_def example_index_def box_def
  example_record_def annotation_step_def acc0_def os_path_join_def str_int_def
  encode_mask_def amax_axis2_def Let_def

lemma example_run_plain:
  "create_tf_example example_env example_image [box [10, 20, 30, 40]] ''images''
     example_index False =
   Inr (''sha256 of JPEG'', example_record [1/10] [2/5] [1/5] [3/5] False, 0)"
  by (simp add: example_defs)

lemma example_run_skips:
  "create_tf_example example_env example_image
     [box [50, 50, 0, 10], box [10, 20, 30, 40], box [90, 90, 20, 5]] ''images''
     example_index True =
   Inr (''sha256 of JPEG'', example_record [1/10] [2/5] [1/5] [3/5] True, 2)"
  by (simp add: example_defs)

subsection \<open>Masks\<close>

lemma amax_list_Max: "px \<noteq> [] \<Longrightarrow> amax_list px = Max (set px)"
proof (cases px)
  case Nil
  assume "px \<noteq> []"
  with Nil show ?thesis by simp
next
  case (Cons x xs)
  have "Max (set (x # xs)) = fold max xs x" by (rule Max.set_eq_fold)
  with Cons show ?thesis by simp
qed

lemma Max_binary:
  assumes "px \<noteq> []" and "set px \<subseteq> {0, 1 :: nat}"
  shows "Max (set px) = (if 1 \<in> set px then 1 else 0)"
proof (cases "1 \<in> set px")
  case True
  have "Max (set px) \<le> 1" using assms by (intro Max.boundedI) auto
  moreover have "1 \<le> Max (set px)" using True by (intro Max_ge) auto
  ultimately show ?thesis using True by simp
next
  case False
  with assms have "set px = {0}" by (cases px) auto
  with False show ?thesis by simp
qed

lemma encode_mask_collapse:
  assumes "encode_mask e a H W = Inr png" and "a_iscrowd a = 0"
    and "mask_decode e (a_segmentation a) H W = Inr (Arr3 rows)"
  shows "png_save e (Arr2 (map (map (\<lambda>px. Max (set px))) rows)) = Inr png"
    and "\<forall>row \<in> set rows. \<forall>px \<in> set row. px \<noteq> []"
proof -
  from assms have ne: "\<not> (\<exists>row \<in> set rows. \<exists>px \<in> set row. px = [])"
    and png: "png_save e (Arr2 (map (map amax_list) rows)) = Inr png"
    by (auto simp: encode_mask_def amax_axis2_def split: if_splits)
  from ne show "\<forall>row \<in> set rows. \<forall>px \<in> set row. px \<noteq> []" by blast
  then have "map (map amax_list) rows = map (map (\<lambda>px. Max (set px))) rows"
    by (auto simp: amax_list_Max)
  with png show "png_save e (Arr2 (map (map (\<lambda>px. Max (set px))) rows)) = Inr png" by simp
qed

section \<open>The claims about \<open>create_tf_example\<close>\<close>





text \<open>
  C3. Whenever \<open>create_tf_example\<close> returns a record, its sequences xmin, xmax, ymin,
  ymax, class text, is\_crowd and area have the same length, and with masks enabled the
  record has a mask sequence of that length too.
\<close>

theorem C3_parallel_sequences:
  assumes "create_tf_example e img as image_dir ci im = Inr (key, ex, n)"
  shows "length (ft_image_object_bbox_xmax ex) = length (ft_image_object_bbox_xmin ex) \<and>
         length (ft_image_object_bbox_ymin ex) = length (ft_image_object_bbox_xmin ex) \<and>
         length (ft_image_object_bbox_ymax ex) = length (ft_image_object_bbox_xmin ex) \<and>
         length (ft_image_object_class_text ex) = length (ft_image_object_bbox_xmin ex) \<and>
         length (ft_image_object_is_crowd ex) = length (ft_image_object_bbox_xmin ex) \<and>
         length (ft_image_object_area ex) = length (ft_image_object_bbox_xmin ex) \<and>
         length (ft_image_object_bbox_xmin ex) + n = length as \<and>
         (im \<longrightarrow> (\<exists>masks. ft_image_object_mask ex = Some masks \<and>
                  length masks = length (ft_image_object_bbox_xmin ex)))"
proof -
  note f = create_tf_example_fields [OF assms]
  have "length (kept (im_height img) (im_width img) as) +
        length (filter (is_skipped (im_height img) (im_width img)) as) = length as"
    unfolding kept_def by (induction as) simp_all
  with f(1-9) show ?thesis by simp
qed

theorem C3_parallel_sequences_witness:
  "create_tf_example example_env example_image
     [box [50, 50, 0, 10], box [10, 20, 30, 40], box [90, 90, 20, 5]] ''images''
     example_index True =
     Inr (''sha256 of JPEG'', example_record [1/10] [2/5] [1/5] [3/5] True, 2) \<and>
   length (ft_image_object_bbox_xmin (example_record [1/10] [2/5] [1/5] [3/5] True)) = 1 \<and>
   length (ft_image_object_area (example_record [1/10] [2/5] [1/5] [3/5] True)) = 1 \<and>
   (\<exists>masks. ft_image_object_mask (example_record [1/10] [2/5] [1/5] [3/5] True) = Some masks \<and>
      length masks = 1)"
  using example_run_skips C3_parallel_sequences [OF example_run_skips]
  by (simp add: example_record_def)




text \<open>
  C5. A record built without masks has no mask field. A record built with masks has
  one mask per kept annotation, and for a kept annotation that is not marked crowd and
  whose segmentation decodes to an array with instance channels, the mask is the PNG of
  the two-dimensional array that holds, at each pixel, the maximum over the channels; on
  values 0 and 1 that maximum is the logical or.
\<close>

theorem C5_masks:
  assumes "create_tf_example e img as image_dir ci im = Inr (key, ex, n)"
  shows "(\<not> im \<longrightarrow> ft_image_object_mask ex = None) \<and>
         (im \<longrightarrow>
            (\<exists>masks. ft_image_object_mask ex = Some masks \<and>
               length masks = length (kept (im_height img) (im_width img) as) \<and>
               (\<forall>i < length masks.
                  a_iscrowd (kept (im_height img) (im_width img) as ! i) = 0 \<longrightarrow>
                  (\<forall>rows.
                     mask_decode e (a_segmentation (kept (im_height img) (im_width img) as ! i))
                       (im_height img) (im_width img) = Inr (Arr3 rows) \<longrightarrow>
                     png_save e (Arr2 (map (map (\<lambda>px. Max (set px))) rows)) = Inr (masks ! i) \<and>
                     (\<forall>row \<in> set rows. \<forall>px \<in> set row.
                        px \<noteq> [] \<and>
                        (set px \<subseteq> {0, 1} \<longrightarrow>
                           Max (set px) = (if 1 \<in> set px then 1 else 0)))))))"
proof -
  define H where "H = im_height img"
  define W where "W = im_width img"
  note f = create_tf_example_fields(8,10) [OF assms, folded H_def W_def]
  have none: "\<not> im \<longrightarrow> ft_image_object_mask ex = None" using f(1) by simp
  have some: "\<exists>masks. ft_image_object_mask ex = Some masks \<and>
               length masks = length (kept H W as) \<and>
               (\<forall>i < length masks.
                  a_iscrowd (kept H W as ! i) = 0 \<longrightarrow>
                  (\<forall>rows.
                     mask_decode e (a_segmentation (kept H W as ! i)) H W = Inr (Arr3 rows) \<longrightarrow>
                     png_save e (Arr2 (map (map (\<lambda>px. Max (set px))) rows)) = Inr (masks ! i) \<and>
                     (\<forall>row \<in> set rows. \<forall>px \<in> set row.
                        px \<noteq> [] \<and>
                        (set px \<subseteq> {0, 1} \<longrightarrow>
                           Max (set px) = (if 1 \<in> set px then 1 else 0)))))" if im
  proof (intro exI conjI allI impI)
    show "ft_image_object_mask ex = Some (map (mask_png e H W) (kept H W as))"
      using f(1) that by simp
    show "length (map (mask_png e H W) (kept H W as)) = length (kept H W as)" by simp
  next
    fix i rows
    assume i: "i < length (map (mask_png e H W) (kept H W as))"
      and crowd: "a_iscrowd (kept H W as ! i) = 0"
      and dec: "mask_decode e (a_segmentation (kept H W as ! i)) H W = Inr (Arr3 rows)"
    define a where "a = kept H W as ! i"
    from i have mem: "a \<in> set (kept H W as)" by (simp add: a_def)
    then have "a \<in> set as" and "\<not> is_skipped H W a" by (simp_all add: kept_def)
    with f(2) that obtain png where png: "encode_mask e a H W = Inr png"
      by (auto simp: step_ok_def)
    then have mp: "mask_png e H W a = png" by (simp add: mask_png_def)
    note c = encode_mask_collapse [OF png crowd [folded a_def] dec [folded a_def]]
    from c(1) mp i
    show "png_save e (Arr2 (map (map (\<lambda>px. Max (set px))) rows)) =
            Inr (map (mask_png e H W) (kept H W as) ! i)"
      by (simp add: a_def)
    show "\<forall>row \<in> set rows. \<forall>px \<in> set row.
            px \<noteq> [] \<and> (set px \<subseteq> {0, 1} \<longrightarrow> Max (set px) = (if 1 \<in> set px then 1 else 0))"
      using c(2) Max_binary by blast
  qed
  from none some show ?thesis unfolding H_def W_def by blast
qed

theorem C5_masks_witness:
  "create_tf_example example_env example_image [box [10, 20, 30, 40]] ''images''
     example_index False =
     Inr (''sha256 of JPEG'', example_record [1/10] [2/5] [1/5] [3/5] False, 0) \<and>
   ft_image_object_mask (example_record [1/10] [2/5] [1/5] [3/5] False) = None \<and>
   create_tf_example example_env example_image
     [box [50, 50, 0, 10], box [10, 20, 30, 40], box [90, 90, 20, 5]] ''images''
     example_index True =
     Inr (''sha256 of JPEG'', example_record [1/10] [2/5] [1/5] [3/5] True, 2) \<and>
   a_iscrowd (box [10, 20, 30, 40]) = 0 \<and>
   mask_decode example_env (a_segmentation (box [10, 20, 30, 40]))
     (im_height example_image) (im_width example_image) = Inr (Arr3 [[[0, 1], [0, 0]]]) \<and>
   ft_image_object_mask (example_record [1/10] [2/5] [1/5] [3/5] True) = Some [''10''] \<and>
   png_save example_env (Arr2 (map (map (\<lambda>px. Max (set px))) [[[0, 1], [0, 0]]])) = Inr ''10''"
proof -
  note plain = C5_masks [OF example_run_plain]
  note masks = C5_masks [OF example_run_skips]
  have k: "kept (im_height example_image) (im_width example_image)
     [box [50, 50, 0, 10], box [10, 20, 30, 40], box [90, 90, 20, 5]] = [box [10, 20, 30, 40]]"
    by (simp add: kept_def is_skipped_def skipped_def example_image_def box_def box_x_def
        box_y_def box_width_def box_height_def)
  have crowd: "a_iscrowd (box [10, 20, 30, 40]) = 0" by (simp add: box_def)
  have dec: "mask_decode example_env (a_segmentation (box [10, 20, 30, 40]))
     (im_height example_image) (im_width example_image) = Inr (Arr3 [[[0, 1], [0, 0]]])"
    by (simp add: example_env_def box_def)
  from plain have none: "ft_image_object_mask (example_record [1/10] [2/5] [1/5] [3/5] False) = None"
    by simp
  from masks obtain ms where
    ms: "ft_image_object_mask (example_record [1/10] [2/5] [1/5] [3/5] True) = Some ms" and
    len: "length ms = 1" and
    all: "\<forall>i < length ms.
            a_iscrowd ([box [10, 20, 30, 40]] ! i) = 0 \<longrightarrow>
            (\<forall>rows.
               mask_decode example_env (a_segmentation ([box [10, 20, 30, 40]] ! i))
                 (im_height example_image) (im_width example_image) = Inr (Arr3 rows) \<longrightarrow>
               png_save example_env (Arr2 (map (map (\<lambda>px. Max (set px))) rows)) = Inr (ms ! i) \<and>
               (\<forall>row \<in> set rows. \<forall>px \<in> set row.
                  px \<noteq> [] \<and>
                  (set px \<subseteq> {0, 1} \<longrightarrow> Max (set px) = (if 1 \<in> set px then 1 else 0))))"
    unfolding k by auto
  from ms have ms1: "ms = [''10'']" by (simp add: example_record_def)
  from all len crowd dec
  have "png_save example_env (Arr2 (map (map (\<lambda>px. Max (set px))) [[[0, 1], [0, 0]]])) =
          Inr (ms ! 0)"
    by auto
  with ms1 have png: "png_save example_env
      (Arr2 (map (map (\<lambda>px. Max (set px))) [[[0, 1], [0, 0]]])) = Inr ''10''"
    by simp
  from example_run_plain none example_run_skips crowd dec ms [unfolded ms1] png
  show ?thesis by blast
qed

section \<open>Properties of \<open>_create_tf_record_from_coco_annotations\<close>\<close>

subsection \<open>Counting the indices that fall into one shard\<close>

lemma count_mod:
  assumes "k < S"
  shows "length (filter (\<lambda>i. i mod S = k) [0..<N]) = N div S + (if k < N mod S then 1 else 0)"
  using assms
proof (induction N)
  case 0
  then show ?case by simp
next
  case (Suc N)
  then show ?case by (auto simp: mod_Suc div_Suc)
qed

lemma floor_nat: "\<lfloor>real N / real S\<rfloor> = int (N div S)"
  by (rule floor_divide_of_nat_eq)

lemma ceil_nat:
  assumes "0 < S"
  shows "\<lceil>real N / real S\<rceil> = int (N div S) + (if N mod S = 0 then 0 else 1)"
proof -
  have "real N = real (N div S) * real S + real (N mod S)"
    by (metis div_mult_mod_eq of_nat_add of_nat_mult)
  then have eq: "real N / real S = real (N div S) + real (N mod S) / real S"
    using assms by (simp add: field_simps)
  show ?thesis
  proof (cases "N mod S = 0")
    case True
    with eq show ?thesis by simp
  next
    case False
    then have "0 < real (N mod S) / real S" using assms by simp
    moreover have "real (N mod S) / real S < 1" using assms by simp
    ultimately have "\<lceil>real N / real S\<rceil> = int (N div S) + 1"
      unfolding eq by (intro ceiling_unique) simp_all
    with False show ?thesis by simp
  qed
qed

lemma count_mod_ceil_or_floor:
  assumes "k < S"
  shows "int (length (filter (\<lambda>i. i mod S = k) [0..<N])) = \<lceil>real N / real S\<rceil> \<or>
         int (length (filter (\<lambda>i. i mod S = k) [0..<N])) = \<lfloor>real N / real S\<rfloor>"
proof -
  from assms have S: "0 < S" by simp
  show ?thesis
    unfolding count_mod [OF assms] ceil_nat [OF S] floor_nat by auto
qed

lemma length_filter_enumerate:
  "length (filter (\<lambda>(i, x). P i) (enumerate n xs)) = length (filter P [n..<n + length xs])"
proof (induction xs arbitrary: n)
  case Nil
  then show ?case by simp
next
  case (Cons x xs)
  have "[n..<n + length (x # xs)] = n # [Suc n..<Suc n + length xs]"
    by (subst upt_rec) simp
  with Cons.IH [of "Suc n"] show ?case by simp
qed

subsection \<open>Writing to a shard\<close>

lemma write_shard_mod:
  assumes "0 < num_shards" and "length ws = nat num_shards"
  shows "py_mod (int idx) num_shards = Inr (int (idx mod nat num_shards))"
    and "write_shard ws (int (idx mod nat num_shards)) r =
           Inr (ws[idx mod nat num_shards := ws ! (idx mod nat num_shards) @ [r]])"
proof -
  from assms(1) have "int idx mod num_shards = int (idx mod nat num_shards)"
    by (simp add: zmod_int)
  with assms(1) show "py_mod (int idx) num_shards = Inr (int (idx mod nat num_shards))"
    by (simp add: py_mod_def)
  from assms have "idx mod nat num_shards < length ws" by simp
  then show "write_shard ws (int (idx mod nat num_shards)) r =
           Inr (ws[idx mod nat num_shards := ws ! (idx mod nat num_shards) @ [r]])"
    by (simp add: write_shard_def Let_def)
qed

text \<open>
  When the loop over \<open>enumerate(images)\<close> returns, shard \<open>k\<close> has gained the records of
  exactly the images whose index is \<open>k\<close> modulo the number of shards, in order.
\<close>

lemma images_loop_shards:
  assumes "images_loop e ai image_dir ci im num_shards idx images (ws, tot) = Inr (ws', tot')"
    and "0 < num_shards" and "length ws = nat num_shards"
  shows "length ws' = nat num_shards \<and>
         (\<forall>k < nat num_shards.
            ws' ! k = ws ! k @
              map (\<lambda>(i, img). record_of e ai image_dir ci im img)
                (filter (\<lambda>(i, img). i mod nat num_shards = k) (enumerate idx images)))"
  using assms
proof (induction images arbitrary: idx ws tot)
  case Nil
  then show ?case by simp
next
  case (Cons img images)
  from Cons.prems(1) obtain annotations_list key ex n shard_idx ws1 where
    ai: "ai (im_id img) = Some annotations_list" and
    cr: "create_tf_example e img annotations_list image_dir ci im = Inr (key, ex, n)" and
    md: "py_mod (int idx) num_shards = Inr shard_idx" and
    wr: "write_shard ws shard_idx (serialize_to_string e ex) = Inr ws1" and
    lp: "images_loop e ai image_dir ci im num_shards (Suc idx) images (ws1, tot + n) =
           Inr (ws', tot')"
    by (auto split: option.splits sum.splits prod.splits)
  note m = write_shard_mod [OF Cons.prems(2,3), of idx]
  from md m(1) have si: "shard_idx = int (idx mod nat num_shards)" by simp
  from wr m(2) [of "serialize_to_string e ex"]
  have ws1: "ws1 = ws[idx mod nat num_shards :=
      ws ! (idx mod nat num_shards) @ [serialize_to_string e ex]]"
    unfolding si by simp
  then have len1: "length ws1 = nat num_shards" using Cons.prems(3) by simp
  from ai cr have rec: "record_of e ai image_dir ci im img = serialize_to_string e ex"
    by (simp add: record_of_def)
  note ih = Cons.IH [OF lp Cons.prems(2) len1]
  show ?case
  proof (intro conjI allI impI)
    from ih show "length ws' = nat num_shards" by blast
  next
    fix k assume k: "k < nat num_shards"
    with ih have "ws' ! k = ws1 ! k @
        map (\<lambda>(i, img). record_of e ai image_dir ci im img)
          (filter (\<lambda>(i, img). i mod nat num_shards = k) (enumerate (Suc idx) images))"
      by blast
    moreover have "ws1 ! k = ws ! k @
        (if idx mod nat num_shards = k then [record_of e ai image_dir ci im img] else [])"
      using k Cons.prems(3) by (simp add: ws1 rec nth_list_update)
    ultimately show "ws' ! k = ws ! k @
        map (\<lambda>(i, img). record_of e ai image_dir ci im img)
          (filter (\<lambda>(i, img). i mod nat num_shards = k) (enumerate idx (img # images)))"
      by simp
  qed
qed

lemma create_tf_record_shards:
  assumes "create_tf_record_from_coco_annotations e doc image_dir im num_shards =
             Inr (shards, missing, skips)"
    and "0 < num_shards"
  shows "\<exists>ai. build_annotations_index doc = Inr (ai, missing) \<and>
           length shards = nat num_shards \<and>
           (\<forall>k < nat num_shards.
              shards ! k =
                map (\<lambda>(i, img). record_of e ai image_dir
                       (create_category_index (g_categories doc)) im img)
                  (filter (\<lambda>(i, img). i mod nat num_shards = k) (enumerate 0 (g_images doc))))"
proof -
  from assms(1) obtain ai where
    b: "build_annotations_index doc = Inr (ai, missing)" and
    lp: "images_loop e ai image_dir (create_category_index (g_categories doc)) im num_shards 0
           (g_images doc) (open_sharded_output_tfrecords num_shards, 0) = Inr (shards, skips)"
    by (auto simp: create_tf_record_from_coco_annotations_def Let_def
        split: sum.splits prod.splits)
  have len: "length (open_sharded_output_tfrecords num_shards) = nat num_shards"
    by (simp add: open_sharded_output_tfrecords_def)
  from images_loop_shards [OF lp assms(2) len] b show ?thesis
    by (auto simp: open_sharded_output_tfrecords_def)
qed

lemma nth_enumerate_mem:
  assumes "i < length xs"
  shows "(i, xs ! i) \<in> set (enumerate 0 xs)"
  using assms by (simp add: in_set_enumerate_eq)

lemma replicate_two: "replicate 2 x = [x, x]"
  by (simp add: numeral_2_eq_2)

lemma example_records_run:
  "create_tf_record_from_coco_annotations example_env example_document ''images'' False 2 =
     Inr ([[''7'', ''9''], [''8'']], 2, 0)"
  by (simp add: create_tf_record_from_coco_annotations_def example_document_def
      build_annotations_index_def index_annotation_def create_category_index_def
      open_sharded_output_tfrecords_def py_mod_def write_shard_def replicate_two example_defs)

section \<open>The claim about the shards\<close>

text \<open>
  C6. When a run over \<open>N\<close> images with \<open>S > 0\<close> shards returns, there are \<open>S\<close> shards,
  shard \<open>k\<close> holds the records of exactly the images whose enumeration index \<open>i\<close> has
  \<open>i mod S = k\<close>, in enumeration order (so the record of image \<open>i\<close> is in shard
  \<open>i mod S\<close>), and every shard holds \<open>\<lceil>N/S\<rceil>\<close> or \<open>\<lfloor>N/S\<rfloor>\<close> records.
\<close>

theorem C6_round_robin_shards:
  assumes "create_tf_record_from_coco_annotations e doc image_dir im num_shards =
             Inr (shards, missing, skips)"
    and "0 < num_shards"
  shows "\<exists>ai. build_annotations_index doc = Inr (ai, missing) \<and>
           length shards = nat num_shards \<and>
           (\<forall>k < nat num_shards.
              shards ! k =
                map (\<lambda>(i, img). record_of e ai image_dir
                       (create_category_index (g_categories doc)) im img)
                  (filter (\<lambda>(i, img). i mod nat num_shards = k) (enumerate 0 (g_images doc))) \<and>
              (int (length (shards ! k)) =
                 \<lceil>real (length (g_images doc)) / real_of_int num_shards\<rceil> \<or>
               int (length (shards ! k)) =
                 \<lfloor>real (length (g_images doc)) / real_of_int num_shards\<rfloor>)) \<and>
           (\<forall>i < length (g_images doc).
              record_of e ai image_dir (create_category_index (g_categories doc)) im
                (g_images doc ! i) \<in> set (shards ! (i mod nat num_shards)))"
proof -
  define S where "S = nat num_shards"
  from assms(2) have S: "0 < S" and rS: "real_of_int num_shards = real S"
    by (simp_all add: S_def)
  from create_tf_record_shards [OF assms] obtain ai where
    b: "build_annotations_index doc = Inr (ai, missing)" and
    len: "length shards = S" and
    sh: "\<And>k. k < S \<Longrightarrow> shards ! k =
           map (\<lambda>(i, img). record_of e ai image_dir
                  (create_category_index (g_categories doc)) im img)
             (filter (\<lambda>(i, img). i mod S = k) (enumerate 0 (g_images doc)))"
    unfolding S_def by blast
  have cnt: "int (length (shards ! k)) = \<lceil>real (length (g_images doc)) / real S\<rceil> \<or>
             int (length (shards ! k)) = \<lfloor>real (length (g_images doc)) / real S\<rfloor>"
    if "k < S" for k
  proof -
    have "length (shards ! k) =
        length (filter (\<lambda>i. i mod S = k) [0..<length (g_images doc)])"
      using length_filter_enumerate [of "\<lambda>i. i mod S = k" 0 "g_images doc"]
      by (simp add: sh [OF that])
    with count_mod_ceil_or_floor [OF that, of "length (g_images doc)"] show ?thesis by simp
  qed
  have mem: "record_of e ai image_dir (create_category_index (g_categories doc)) im
                (g_images doc ! i) \<in> set (shards ! (i mod S))"
    if "i < length (g_images doc)" for i
  proof -
    from S have k: "i mod S < S" by simp
    have "(i, g_images doc ! i) \<in>
        set (filter (\<lambda>(j, img). j mod S = i mod S) (enumerate 0 (g_images doc)))"
      using nth_enumerate_mem [OF that] by simp
    then have "(\<lambda>(j, img). record_of e ai image_dir
                  (create_category_index (g_categories doc)) im img) (i, g_images doc ! i)
        \<in> set (shards ! (i mod S))"
      unfolding sh [OF k] set_map by (rule imageI)
    then show ?thesis by simp
  qed
  from b len sh cnt mem show ?thesis
    unfolding rS S_def [symmetric] by blast
qed

theorem C6_round_robin_shards_witness:
  "create_tf_record_from_coco_annotations example_env example_document ''images'' False 2 =
     Inr ([[''7'', ''9''], [''8'']], 2, 0) \<and>
   (0 :: int) < 2 \<and>
   length [[''7'', ''9''], [''8'']] = nat 2 \<and>
   (int (length ([[''7'', ''9''], [''8''] :: string list] ! 0)) =
      \<lceil>real (length (g_images example_document)) / real_of_int 2\<rceil> \<or>
    int (length ([[''7'', ''9''], [''8''] :: string list] ! 0)) =
      \<lfloor>real (length (g_images example_document)) / real_of_int 2\<rfloor>) \<and>
   (int (length ([[''7'', ''9''], [''8''] :: string list] ! 1)) =
      \<lceil>real (length (g_images example_document)) / real_of_int 2\<rceil> \<or>
    int (length ([[''7'', ''9''], [''8''] :: string list] ! 1)) =
      \<lfloor>real (length (g_images example_document)) / real_of_int 2\<rfloor>)"
proof -
  have pos: "(0 :: int) < 2" by simp
  from C6_round_robin_shards [OF example_records_run pos] obtain ai where
    len: "length [[''7'', ''9''], [''8''] :: string list] = nat 2" and
    all: "\<forall>k < nat 2.
        (int (length ([[''7'', ''9''], [''8''] :: string list] ! k)) =
           \<lceil>real (length (g_images example_document)) / real_of_int 2\<rceil> \<or>
         int (length ([[''7'', ''9''], [''8''] :: string list] ! k)) =
           \<lfloor>real (length (g_images example_document)) / real_of_int 2\<rfloor>)"
    by blast
  from all have "int (length ([[''7'', ''9''], [''8''] :: string list] ! 0)) =
           \<lceil>real (length (g_images example_document)) / real_of_int 2\<rceil> \<or>
         int (length ([[''7'', ''9''], [''8''] :: string list] ! 0)) =
           \<lfloor>real (length (g_images example_document)) / real_of_int 2\<rfloor>"
    by (elim allE [of _ 0]) simp
  moreover from all have "int (length ([[''7'', ''9''], [''8''] :: string list] ! 1)) =
           \<lceil>real (length (g_images example_document)) / real_of_int 2\<rceil> \<or>
         int (length ([[''7'', ''9''], [''8''] :: string list] ! 1)) =
           \<lfloor>real (length (g_images example_document)) / real_of_int 2\<rfloor>"
    by (elim allE [of _ 1]) simp
  ultimately show ?thesis using example_records_run pos len by blast
qed

section \<open>Properties of the pattern of line 24\<close>

lemma rests_plus_cls_Nil: "rests (Plus (Cls P)) [] = []"
  by (subst rests.simps(6)) simp

lemma rests_plus_cls_Cons:
  "rests (Plus (Cls P)) (c # cs) = (if P c then cs # rests (Plus (Cls P)) cs else [])"
  by (subst rests.simps(6)) simp

lemma rests_plus_cls_iff:
  "t \<in> set (rests (Plus (Cls P)) s) \<longleftrightarrow> (\<exists>m. m \<noteq> [] \<and> s = m @ t \<and> (\<forall>c \<in> set m. P c))"
proof (induction s)
  case Nil
  show ?case unfolding rests_plus_cls_Nil by simp
next
  case (Cons c cs)
  show ?case
  proof
    assume "t \<in> set (rests (Plus (Cls P)) (c # cs))"
    then have P: "P c" and t: "t = cs \<or> t \<in> set (rests (Plus (Cls P)) cs)"
      unfolding rests_plus_cls_Cons by (auto split: if_splits)
    from t show "\<exists>m. m \<noteq> [] \<and> c # cs = m @ t \<and> (\<forall>c \<in> set m. P c)"
    proof
      assume "t = cs"
      with P have "[c] \<noteq> [] \<and> c # cs = [c] @ t \<and> (\<forall>c \<in> set [c]. P c)" by simp
      then show ?thesis by blast
    next
      assume "t \<in> set (rests (Plus (Cls P)) cs)"
      with Cons.IH obtain m where "m \<noteq> []" "cs = m @ t" "\<forall>c \<in> set m. P c" by blast
      with P have "c # m \<noteq> [] \<and> c # cs = (c # m) @ t \<and> (\<forall>c \<in> set (c # m). P c)" by simp
      then show ?thesis by blast
    qed
  next
    assume "\<exists>m. m \<noteq> [] \<and> c # cs = m @ t \<and> (\<forall>c \<in> set m. P c)"
    then obtain m where m: "m \<noteq> []" "c # cs = m @ t" "\<forall>c \<in> set m. P c" by blast
    then obtain m' where m': "m = c # m'" "cs = m' @ t" by (cases m) auto
    with m(3) have P: "P c" "\<forall>c \<in> set m'. P c" by auto
    show "t \<in> set (rests (Plus (Cls P)) (c # cs))"
    proof (cases "m' = []")
      case True
      with m' P show ?thesis unfolding rests_plus_cls_Cons by simp
    next
      case False
      with m'(2) P(2) Cons.IH have "t \<in> set (rests (Plus (Cls P)) cs)" by blast
      with P show ?thesis unfolding rests_plus_cls_Cons by simp
    qed
  qed
qed

lemma rests_seq_iff:
  "t \<in> set (rests (Seq r1 r2) s) \<longleftrightarrow> (\<exists>u \<in> set (rests r1 s). t \<in> set (rests r2 u))"
  by simp

lemma rests_alt_iff:
  "t \<in> set (rests (Alt r1 r2) s) \<longleftrightarrow> t \<in> set (rests r1 s) \<or> t \<in> set (rests r2 s)"
  by simp

lemma rests_lit3:
  "t \<in> set (rests (Seq Dot (lit [a, b, c])) s) \<longleftrightarrow>
     (\<exists>x. s = x # [a, b, c] @ t \<and> x \<noteq> CHR 0x0A)"
  by (cases s rule: list.exhaust; auto simp: lit_def split: list.splits)

lemma rests_lit4:
  "t \<in> set (rests (Seq Dot (lit [a, b, c, d])) s) \<longleftrightarrow>
     (\<exists>x. s = x # [a, b, c, d] @ t \<and> x \<noteq> CHR 0x0A)"
  by (cases s rule: list.exhaust; auto simp: lit_def split: list.splits)

lemma rests_ext_iff:
  "t \<in> set (rests (Alt (Seq Dot (lit ''jpg'')) (Alt (Seq Dot (lit ''jpeg'')) (Seq Dot (lit ''png'')))) s)
     \<longleftrightarrow> (\<exists>x ext. s = x # ext @ t \<and> x \<noteq> CHR 0x0A \<and> ext \<in> {''jpg'', ''jpeg'', ''png''})"
  unfolding rests_alt_iff rests_lit3 rests_lit4 by blast

lemma rests_eol_iff: "t \<in> set (rests Eol s) \<longleftrightarrow> t = s \<and> (s = [] \<or> s = [CHR 0x0A])"
  by auto

lemma rests_image_pattern_iff:
  "rests image_pattern s \<noteq> [] \<longleftrightarrow>
     (\<exists>m x ext nl. s = m @ x # ext @ nl \<and> m \<noteq> [] \<and> (\<forall>c \<in> set m. name_class c) \<and>
        x \<noteq> CHR 0x0A \<and> ext \<in> {''jpg'', ''jpeg'', ''png''} \<and> nl \<in> {[], [CHR 0x0A]})"
  (is "?L \<longleftrightarrow> ?R")
proof
  let ?exts = "Alt (Seq Dot (lit ''jpg'')) (Alt (Seq Dot (lit ''jpeg'')) (Seq Dot (lit ''png'')))"
  assume ?L
  define t where "t = hd (rests image_pattern s)"
  from \<open>?L\<close> have "t \<in> set (rests image_pattern s)"
    unfolding t_def by (rule hd_in_set)
  then have "t \<in> set (rests (Seq (Plus (Cls name_class)) (Seq ?exts Eol)) s)"
    by (simp only: image_pattern_def)
  then have "\<exists>u \<in> set (rests (Plus (Cls name_class)) s). t \<in> set (rests (Seq ?exts Eol) u)"
    by (simp only: rests_seq_iff)
  then obtain u where u: "u \<in> set (rests (Plus (Cls name_class)) s)"
    and t: "t \<in> set (rests (Seq ?exts Eol) u)" ..
  from t have "\<exists>v \<in> set (rests ?exts u). t \<in> set (rests Eol v)"
    by (simp only: rests_seq_iff)
  then obtain v where v: "v \<in> set (rests ?exts u)" and e: "t \<in> set (rests Eol v)" ..
  from u have "\<exists>m. m \<noteq> [] \<and> s = m @ u \<and> (\<forall>c \<in> set m. name_class c)"
    by (simp only: rests_plus_cls_iff)
  then obtain m where m: "m \<noteq> []" "s = m @ u" "\<forall>c \<in> set m. name_class c"
    by (elim exE conjE)
  from v have "\<exists>x ext. u = x # ext @ v \<and> x \<noteq> CHR 0x0A \<and> ext \<in> {''jpg'', ''jpeg'', ''png''}"
    by (simp only: rests_ext_iff)
  then obtain x ext where x: "u = x # ext @ v" "x \<noteq> CHR 0x0A"
    "ext \<in> {''jpg'', ''jpeg'', ''png''}"
    by (elim exE conjE)
  from e have "t = v \<and> (v = [] \<or> v = [CHR 0x0A])"
    by (simp only: rests_eol_iff)
  then have nl: "v \<in> {[], [CHR 0x0A]}" by simp
  from m(2) x(1) have s: "s = m @ x # ext @ v" by simp
  have c: "s = m @ x # ext @ v \<and> m \<noteq> [] \<and> (\<forall>c \<in> set m. name_class c) \<and>
        x \<noteq> CHR 0x0A \<and> ext \<in> {''jpg'', ''jpeg'', ''png''} \<and> v \<in> {[], [CHR 0x0A]}"
    by (intro conjI s m(1) m(3) x(2) x(3) nl)
  show ?R
    apply (rule exI [of _ m])
    apply (rule exI [of _ x])
    apply (rule exI [of _ ext])
    apply (rule exI [of _ v])
    apply (rule c)
    done
next
  let ?exts = "Alt (Seq Dot (lit ''jpg'')) (Alt (Seq Dot (lit ''jpeg'')) (Seq Dot (lit ''png'')))"
  assume ?R
  then obtain m x ext nl where
    s: "s = m @ x # ext @ nl" and m: "m \<noteq> []" "\<forall>c \<in> set m. name_class c" and
    x: "x \<noteq> CHR 0x0A" "ext \<in> {''jpg'', ''jpeg'', ''png''}" and nl: "nl \<in> {[], [CHR 0x0A]}"
    by (elim exE conjE)
  have "m \<noteq> [] \<and> s = m @ (x # ext @ nl) \<and> (\<forall>c \<in> set m. name_class c)"
    by (intro conjI m s)
  then have "\<exists>m'. m' \<noteq> [] \<and> s = m' @ (x # ext @ nl) \<and> (\<forall>c \<in> set m'. name_class c)" ..
  then have u: "x # ext @ nl \<in> set (rests (Plus (Cls name_class)) s)"
    by (simp only: rests_plus_cls_iff)
  have "x # ext @ nl = x # ext @ nl \<and> x \<noteq> CHR 0x0A \<and> ext \<in> {''jpg'', ''jpeg'', ''png''}"
    by (intro conjI refl x)
  then have "\<exists>x' ext'. x # ext @ nl = x' # ext' @ nl \<and> x' \<noteq> CHR 0x0A \<and>
      ext' \<in> {''jpg'', ''jpeg'', ''png''}"
    by (intro exI)
  then have v: "nl \<in> set (rests ?exts (x # ext @ nl))"
    by (simp only: rests_ext_iff)
  from nl have "nl = nl \<and> (nl = [] \<or> nl = [CHR 0x0A])" by simp
  then have e: "nl \<in> set (rests Eol nl)"
    by (simp only: rests_eol_iff)
  from v e have "\<exists>w \<in> set (rests ?exts (x # ext @ nl)). nl \<in> set (rests Eol w)" ..
  then have "nl \<in> set (rests (Seq ?exts Eol) (x # ext @ nl))"
    by (simp only: rests_seq_iff)
  with u have "\<exists>w \<in> set (rests (Plus (Cls name_class)) s). nl \<in> set (rests (Seq ?exts Eol) w)" ..
  then have "nl \<in> set (rests (Seq (Plus (Cls name_class)) (Seq ?exts Eol)) s)"
    by (simp only: rests_seq_iff)
  then have "nl \<in> set (rests image_pattern s)" by (simp only: image_pattern_def)
  then show ?L by (cases "rests image_pattern s") simp_all
qed

lemma re_search_iff: "re_search r s \<longleftrightarrow> (\<exists>pre suf. s = pre @ suf \<and> rests r suf \<noteq> [])"
proof (induction s)
  case Nil
  then show ?case by simp
next
  case (Cons c cs)
  show ?case
  proof
    assume "re_search r (c # cs)"
    then consider "rests r (c # cs) \<noteq> []" | "re_search r cs" by auto
    then show "\<exists>pre suf. c # cs = pre @ suf \<and> rests r suf \<noteq> []"
    proof cases
      case 1
      then have "c # cs = [] @ (c # cs) \<and> rests r (c # cs) \<noteq> []" by simp
      then show ?thesis by blast
    next
      case 2
      with Cons.IH obtain pre suf where "cs = pre @ suf" "rests r suf \<noteq> []" by blast
      then have "c # cs = (c # pre) @ suf \<and> rests r suf \<noteq> []" by simp
      then show ?thesis by blast
    qed
  next
    assume "\<exists>pre suf. c # cs = pre @ suf \<and> rests r suf \<noteq> []"
    then obtain pre suf where ps: "c # cs = pre @ suf" "rests r suf \<noteq> []" by blast
    show "re_search r (c # cs)"
    proof (cases pre)
      case Nil
      with ps(1) have "suf = c # cs" by simp
      with ps(2) show ?thesis by simp
    next
      case (Cons p pre')
      with ps have "cs = pre' @ suf" by simp
      with ps(2) Cons.IH have "re_search r cs" by blast
      then show ?thesis by simp
    qed
  qed
qed

text \<open>
  What line 24 keeps: the names with a character of the class, then any character but a
  newline, then \<open>jpg\<close>, \<open>jpeg\<close> or \<open>png\<close> in lower case, at their end or before a
  newline that ends them.
\<close>

lemma image_pattern_iff:
  "re_search image_pattern f \<longleftrightarrow>
     (\<exists>pre c x ext nl. f = pre @ c # x # ext @ nl \<and> name_class c \<and> x \<noteq> CHR 0x0A \<and>
        ext \<in> {''jpg'', ''jpeg'', ''png''} \<and> nl \<in> {[], [CHR 0x0A]})"
proof
  assume "re_search image_pattern f"
  then obtain pre m x ext nl where
    f: "f = pre @ m @ x # ext @ nl" and m: "m \<noteq> []" "\<forall>c \<in> set m. name_class c" and
    r: "x \<noteq> CHR 0x0A" "ext \<in> {''jpg'', ''jpeg'', ''png''}" "nl \<in> {[], [CHR 0x0A]}"
    unfolding re_search_iff rests_image_pattern_iff by blast
  from m(1) have ml: "m = butlast m @ [last m]" by simp
  from m have "name_class (last m)" by simp
  moreover have "m @ x # ext @ nl = butlast m @ last m # x # ext @ nl"
    by (subst ml) simp
  then have "f = (pre @ butlast m) @ last m # x # ext @ nl"
    using f by simp
  ultimately show "\<exists>pre c x ext nl. f = pre @ c # x # ext @ nl \<and> name_class c \<and>
      x \<noteq> CHR 0x0A \<and> ext \<in> {''jpg'', ''jpeg'', ''png''} \<and> nl \<in> {[], [CHR 0x0A]}"
    using r by blast
next
  assume "\<exists>pre c x ext nl. f = pre @ c # x # ext @ nl \<and> name_class c \<and> x \<noteq> CHR 0x0A \<and>
      ext \<in> {''jpg'', ''jpeg'', ''png''} \<and> nl \<in> {[], [CHR 0x0A]}"
  then obtain pre c x ext nl where
    f: "f = pre @ c # x # ext @ nl" and c: "name_class c" and
    r: "x \<noteq> CHR 0x0A" "ext \<in> {''jpg'', ''jpeg'', ''png''}" "nl \<in> {[], [CHR 0x0A]}"
    by blast
  have "c # x # ext @ nl = [c] @ x # ext @ nl \<and> [c] \<noteq> [] \<and> (\<forall>d \<in> set [c]. name_class d)"
    using c by simp
  with r have "rests image_pattern (c # x # ext @ nl) \<noteq> []"
    unfolding rests_image_pattern_iff by blast
  with f show "re_search image_pattern f" unfolding re_search_iff by blast
qed

lemma list_images_iff:
  assumes "os_listdir fs source_dir = Inr names"
  shows "\<exists>images. list_images fs source_dir = Inr images \<and>
           set images = {f \<in> set names. re_search image_pattern f}"
  using assms by (simp add: list_images_def)

section \<open>The claim about the recognised extensions\<close>

text \<open>
  C10 as stated fails in both directions: the pattern is matched case-sensitively, so
  \<open>A.JPG\<close> is left out, and a name such as \<open>abjpg\<close>, which ends with none of the three
  extensions, is taken.
\<close>

theorem C10_extension_counterexample:
  "os_listdir fs_upper ''src'' = Inr [''A.JPG'', ''abjpg''] \<and>
   list_images fs_upper ''src'' = Inr [''abjpg''] \<and>
   spec_is_image ''A.JPG'' \<and> \<not> spec_is_image ''abjpg''"
  by code_simp

text \<open>
  C10, amended. A name is taken when it ends with \<open>.jpg\<close>, \<open>.jpeg\<close> or \<open>.png\<close> in
  lower case and the character before the dot is a letter, a digit, white space or one
  of \<open>_ \ . :\<close>. Every name taken ends with \<open>jpg\<close>, \<open>jpeg\<close> or \<open>png\<close> in lower
  case (before a final newline, if it has one) after at least two more characters; the
  comparison is case-sensitive, so a name without a lower-case \<open>g\<close> is never taken.
  The images of a directory are the names of its listing that the pattern finds.
\<close>

theorem C10_image_names:
  "(name_class c \<and> ext \<in> {''.jpg'', ''.jpeg'', ''.png''} \<longrightarrow>
      re_search image_pattern (pre @ c # ext)) \<and>
   (re_search image_pattern f \<longrightarrow>
      (\<exists>stem ext nl. f = stem @ ext @ nl \<and> 2 \<le> length stem \<and>
         ext \<in> {''jpg'', ''jpeg'', ''png''} \<and> nl \<in> {[], [CHR 0x0A]})) \<and>
   (CHR ''g'' \<notin> set f \<longrightarrow> \<not> re_search image_pattern f) \<and>
   (os_listdir fs source_dir = Inr names \<longrightarrow>
      (\<exists>images. list_images fs source_dir = Inr images \<and>
         set images = {f \<in> set names. re_search image_pattern f}))"
proof (intro conjI impI)
  assume a: "name_class c \<and> ext \<in> {''.jpg'', ''.jpeg'', ''.png''}"
  then obtain e where e: "ext = CHR ''.'' # e" "e \<in> {''jpg'', ''jpeg'', ''png''}" by auto
  have "pre @ c # ext = pre @ c # CHR ''.'' # e @ [] \<and> name_class c \<and>
      CHR ''.'' \<noteq> CHR 0x0A \<and> e \<in> {''jpg'', ''jpeg'', ''png''} \<and>
      ([] :: string) \<in> {[], [CHR 0x0A]}"
    using a e by simp
  then show "re_search image_pattern (pre @ c # ext)"
    unfolding image_pattern_iff by blast
next
  assume "re_search image_pattern f"
  then obtain pre c x ext nl where
    f: "f = pre @ c # x # ext @ nl" and
    r: "ext \<in> {''jpg'', ''jpeg'', ''png''}" "nl \<in> {[], [CHR 0x0A]}"
    unfolding image_pattern_iff by blast
  have "f = (pre @ [c, x]) @ ext @ nl \<and> 2 \<le> length (pre @ [c, x])"
    using f by simp
  with r show "\<exists>stem ext nl. f = stem @ ext @ nl \<and> 2 \<le> length stem \<and>
      ext \<in> {''jpg'', ''jpeg'', ''png''} \<and> nl \<in> {[], [CHR 0x0A]}"
    by blast
next
  assume g: "CHR ''g'' \<notin> set f"
  show "\<not> re_search image_pattern f"
  proof
    assume "re_search image_pattern f"
    then obtain pre c x ext nl where
      f: "f = pre @ c # x # ext @ nl" and r: "ext \<in> {''jpg'', ''jpeg'', ''png''}"
      unfolding image_pattern_iff by blast
    from r have "CHR ''g'' \<in> set ext" by auto
    with f g show False by simp
  qed
next
  assume "os_listdir fs source_dir = Inr names"
  then show "\<exists>images. list_images fs source_dir = Inr images \<and>
      set images = {f \<in> set names. re_search image_pattern f}"
    by (rule list_images_iff)
qed

lemma example_listing:
  "os_listdir fs_absent ''src'' =
     Inr [''a.jpg'', ''a.xml'', ''b.jpg'', ''b.xml'', ''c.png'', ''c.xml'']"
  by code_simp

theorem C10_image_names_witness:
  "name_class CHR ''a'' \<and> ''.jpg'' \<in> {''.jpg'', ''.jpeg'', ''.png''} \<and>
   re_search image_pattern (''photo-'' @ CHR ''a'' # ''.jpg'') \<and>
   CHR ''g'' \<notin> set ''A.JPG'' \<and> \<not> re_search image_pattern ''A.JPG'' \<and>
   os_listdir fs_absent ''src'' =
     Inr [''a.jpg'', ''a.xml'', ''b.jpg'', ''b.xml'', ''c.png'', ''c.xml''] \<and>
   (\<exists>images. list_images fs_absent ''src'' = Inr images \<and>
      set images = {f \<in> set [''a.jpg'', ''a.xml'', ''b.jpg'', ''b.xml'', ''c.png'', ''c.xml''].
                     re_search image_pattern f})"
proof -
  have c: "name_class CHR ''a''" by code_simp
  have e: "''.jpg'' \<in> {''.jpg'', ''.jpeg'', ''.png''}" by simp
  have g: "CHR ''g'' \<notin> set ''A.JPG''" by simp
  note t = C10_image_names [of "CHR ''a''" "''.jpg''" "''photo-''" "''A.JPG''" fs_absent "''src''"
      "[''a.jpg'', ''a.xml'', ''b.jpg'', ''b.xml'', ''c.png'', ''c.xml'']"]
  from t c e have 1: "re_search image_pattern (''photo-'' @ CHR ''a'' # ''.jpg'')" by blast
  from t g have 2: "\<not> re_search image_pattern ''A.JPG''" by blast
  from t example_listing have 3: "\<exists>images. list_images fs_absent ''src'' = Inr images \<and>
      set images = {f \<in> set [''a.jpg'', ''a.xml'', ''b.jpg'', ''b.xml'', ''c.png'', ''c.xml''].
                     re_search image_pattern f}"
    by blast
  from c e 1 g 2 example_listing 3 show ?thesis by blast
qed

section \<open>Properties of \<open>iterate_dir\<close>\<close>

subsection \<open>The directory tests of lines 19 to 22\<close>

text \<open>
  \<open>os.makedirs\<close> is called only for a path that exists, where it raises. So the tests
  either raise \<open>FileExistsError\<close> or leave the file system as it is, with neither
  directory there.
\<close>

lemma make_dirs_cases:
  "make_dirs fs train_dir test_dir = Inl FileExistsError \<and>
     (os_path_exists fs train_dir \<or> os_path_exists fs test_dir) \<or>
   make_dirs fs train_dir test_dir = Inr fs \<and>
     \<not> os_path_exists fs train_dir \<and> \<not> os_path_exists fs test_dir"
  by (simp add: make_dirs_def os_makedirs_def)

subsection \<open>Copying into a directory that is not there\<close>

lemma dirname_join:
  assumes "d \<noteq> []" and "last d \<noteq> CHR ''/''" and "n \<noteq> []" and "CHR ''/'' \<notin> set n"
  shows "os_path_dirname (os_path_join d n) = d"
proof -
  from assms(3,4) have "hd n \<noteq> CHR ''/''" by (cases n) auto
  with assms(1,2) have j: "os_path_join d n = d @ CHR ''/'' # n"
    by (simp add: os_path_join_def)
  have "dropWhile (\<lambda>c. c \<noteq> CHR ''/'') (rev n @ CHR ''/'' # rev d) =
      dropWhile (\<lambda>c. c \<noteq> CHR ''/'') (CHR ''/'' # rev d)"
    using assms(4) by (intro dropWhile_append2) auto
  then have head: "rev (dropWhile (\<lambda>c. c \<noteq> CHR ''/'') (rev (d @ CHR ''/'' # n))) = d @ ''/''"
    by simp
  from assms(1,2) have "last d \<in> set (d @ ''/'')" by simp
  moreover have "set (replicate (length (d @ ''/'')) CHR ''/'') \<subseteq> {CHR ''/''}" by auto
  ultimately have ne: "d @ ''/'' \<noteq> replicate (length (d @ ''/'')) CHR ''/''"
    using assms(2) by (metis singletonD subsetD)
  from assms(1,2) have "rev d = last d # rev (butlast d)"
    by (metis append_butlast_last_id rev.simps(2) rev_append rev_rev_ident append_Cons append_Nil)
  then have eq: "rev d = last d # rev (butlast d)" .
  have "dropWhile (\<lambda>c. c = CHR ''/'') (last d # rev (butlast d)) = last d # rev (butlast d)"
    using assms(2) by simp
  then have "dropWhile (\<lambda>c. c = CHR ''/'') (rev d) = rev d"
    unfolding eq [symmetric] .
  then have strip: "rev (dropWhile (\<lambda>c. c = CHR ''/'') (rev (d @ ''/''))) = d"
    by simp
  show ?thesis
    unfolding os_path_dirname_def j head Let_def using ne strip by simp
qed

lemma copyfile_parent:
  assumes "copyfile fs src dst = Inr fs1"
  shows "os_path_dirname dst \<in> set (fs_dirs fs)"
    and "fs_dirs fs1 = fs_dirs fs"
  using assms by (auto simp: copyfile_def split: option.splits if_splits)

lemma copyfile_absent:
  assumes "d \<notin> set (fs_dirs fs)"
    and "d \<noteq> []" and "last d \<noteq> CHR ''/''" and "n \<noteq> []" and "CHR ''/'' \<notin> set n"
  shows "\<exists>err. copyfile fs src (os_path_join d n) = Inl err"
proof (cases "copyfile fs src (os_path_join d n)")
  case (Inl err)
  then show ?thesis by blast
next
  case (Inr fs1)
  from copyfile_parent(1) [OF Inr] dirname_join [OF assms(2-5)] assms(1)
  show ?thesis by simp
qed

lemma join_leaf:
  assumes "leaf \<noteq> []" and "CHR ''/'' \<notin> set leaf"
  shows "os_path_join des_dir leaf \<noteq> []" and "last (os_path_join des_dir leaf) \<noteq> CHR ''/''"
proof -
  from assms have "hd leaf \<noteq> CHR ''/''" by (cases leaf) auto
  with assms(1) show "os_path_join des_dir leaf \<noteq> []"
    by (simp add: os_path_join_def)
  from assms have "last leaf \<noteq> CHR ''/''" by (metis last_in_set)
  with assms(1) \<open>hd leaf \<noteq> CHR ''/''\<close> show "last (os_path_join des_dir leaf) \<noteq> CHR ''/''"
    by (simp add: os_path_join_def)
qed

subsection \<open>The names of a listing\<close>

lemma entry_name_Some:
  assumes "entry_name d p = Some n"
  shows "n \<noteq> []" and "CHR ''/'' \<notin> set n"
  using assms by (auto simp: entry_name_def Let_def split: if_splits)

lemma os_listdir_names:
  assumes "os_listdir fs d = Inr names" and "n \<in> set names"
  shows "n \<noteq> [] \<and> CHR ''/'' \<notin> set n"
proof -
  from assms obtain p where "entry_name d p = Some n"
    by (auto simp: os_listdir_def List.map_filter_def split: if_splits)
  from entry_name_Some [OF this] show ?thesis by simp
qed

lemma list_images_names:
  assumes "list_images fs d = Inr images" and "n \<in> set images"
  shows "n \<noteq> [] \<and> CHR ''/'' \<notin> set n"
proof -
  from assms obtain names where "os_listdir fs d = Inr names" and "n \<in> set names"
    by (auto simp: list_images_def split: sum.splits)
  then show ?thesis by (rule os_listdir_names)
qed

subsection \<open>The two loops when the destination is not there\<close>

lemma test_loop_absent:
  assumes "test_dir \<notin> set (fs_dirs fs)"
    and "test_dir \<noteq> []" and "last test_dir \<noteq> CHR ''/''"
    and "\<forall>n \<in> set images. n \<noteq> [] \<and> CHR ''/'' \<notin> set n"
  shows "\<exists>err. test_loop rng source_dir test_dir cop_xml i k fs images =
           (fs, images, if k = 0 then None else Some err)"
proof (cases k)
  case 0
  then show ?thesis by simp
next
  case (Suc k')
  show ?thesis
  proof (cases "images = []")
    case True
    with Suc show ?thesis by (simp add: random_randint_def)
  next
    case False
    define idx where "idx = int (rng i mod nat (int (length images) - 1 - 0 + 1))"
    from False have r: "random_randint rng i 0 (int (length images) - 1) = Inr idx"
      by (simp add: random_randint_def idx_def)
    from False have "nat idx < length images" by (simp add: idx_def)
    then have "images ! nat idx \<in> set images" by simp
    with assms(4) have "images ! nat idx \<noteq> [] \<and> CHR ''/'' \<notin> set (images ! nat idx)" by blast
    with copyfile_absent [OF assms(1-3), of "images ! nat idx"
        "os_path_join source_dir (images ! nat idx)"]
    obtain err where
      "copyfile fs (os_path_join source_dir (images ! nat idx))
         (os_path_join test_dir (images ! nat idx)) = Inl err"
      by blast
    with r Suc show ?thesis by (simp add: Let_def)
  qed
qed

lemma train_loop_absent:
  assumes "train_dir \<notin> set (fs_dirs fs)"
    and "train_dir \<noteq> []" and "last train_dir \<noteq> CHR ''/''"
    and "\<forall>n \<in> set images. n \<noteq> [] \<and> CHR ''/'' \<notin> set n"
  shows "\<exists>err. train_loop source_dir des_dir train_dir cop_xml fs images =
           (fs, if images = [] then None else Some err)"
proof (cases images)
  case Nil
  then show ?thesis by simp
next
  case (Cons filename rest)
  with assms(4) have "filename \<noteq> [] \<and> CHR ''/'' \<notin> set filename" by simp
  with copyfile_absent [OF assms(1-3), of filename "os_path_join source_dir filename"]
  obtain err where
    "copyfile fs (os_path_join source_dir filename) (os_path_join train_dir filename) = Inl err"
    by blast
  with Cons show ?thesis by simp
qed

subsection \<open>No run copies a file\<close>

text \<open>
  Whatever the input, \<open>iterate_dir\<close> leaves the file system as it found it: it raises at
  \<open>os.makedirs\<close> when a destination directory exists, and otherwise every copy raises
  because the destination directory was not created. It ends without an exception only
  when neither destination exists and there is no image.
\<close>

lemma iterate_dir_unchanged:
  "fst (iterate_dir rng fs source_dir des_dir ratio cop_xml) = fs"
proof -
  define train_dir where "train_dir = os_path_join des_dir ''train''"
  define test_dir where "test_dir = os_path_join des_dir ''test''"
  have tr: "train_dir \<noteq> []" "last train_dir \<noteq> CHR ''/''"
    unfolding train_dir_def by (rule join_leaf; simp)+
  have te: "test_dir \<noteq> []" "last test_dir \<noteq> CHR ''/''"
    unfolding test_dir_def by (rule join_leaf; simp)+
  from make_dirs_cases [of fs train_dir test_dir] consider
    (raises) "make_dirs fs train_dir test_dir = Inl FileExistsError" |
    (passes) "make_dirs fs train_dir test_dir = Inr fs"
      "\<not> os_path_exists fs train_dir" "\<not> os_path_exists fs test_dir"
    by blast
  then show ?thesis
  proof cases
    case raises
    then show ?thesis
      by (simp add: iterate_dir_def train_dir_def test_dir_def)
  next
    case passes
    note mk = passes(1) and a = passes(2,3)
    from a have abs: "train_dir \<notin> set (fs_dirs fs)" "test_dir \<notin> set (fs_dirs fs)"
      by (simp_all add: os_path_exists_def)
    show ?thesis
    proof (cases "list_images fs source_dir")
      case (Inl err)
      with mk show ?thesis
        by (simp add: iterate_dir_def train_dir_def [symmetric] test_dir_def [symmetric])
    next
      case (Inr images)
      then have ok: "\<forall>n \<in> set images. n \<noteq> [] \<and> CHR ''/'' \<notin> set n"
        using list_images_names by blast
      from test_loop_absent [OF abs(2) te ok] obtain e1 where
        t: "test_loop rng source_dir test_dir cop_xml 0
              (nat \<lceil>ratio * real (length images)\<rceil>) fs images =
            (fs, images, if nat \<lceil>ratio * real (length images)\<rceil> = 0 then None else Some e1)"
        by blast
      from train_loop_absent [OF abs(1) tr ok] obtain e2 where
        n: "train_loop source_dir des_dir train_dir cop_xml fs images =
            (fs, if images = [] then None else Some e2)"
        by blast
      from mk Inr t n show ?thesis
        by (simp add: iterate_dir_def train_dir_def [symmetric] test_dir_def [symmetric] Let_def)
    qed
  qed
qed

lemma iterate_dir_no_exception:
  assumes "snd (iterate_dir rng fs source_dir des_dir ratio cop_xml) = None"
  shows "list_images fs source_dir = Inr []"
proof -
  define train_dir where "train_dir = os_path_join des_dir ''train''"
  define test_dir where "test_dir = os_path_join des_dir ''test''"
  have tr: "train_dir \<noteq> []" "last train_dir \<noteq> CHR ''/''"
    unfolding train_dir_def by (rule join_leaf; simp)+
  have te: "test_dir \<noteq> []" "last test_dir \<noteq> CHR ''/''"
    unfolding test_dir_def by (rule join_leaf; simp)+
  from make_dirs_cases [of fs train_dir test_dir] consider
    (raises) "make_dirs fs train_dir test_dir = Inl FileExistsError" |
    (passes) "make_dirs fs train_dir test_dir = Inr fs"
      "\<not> os_path_exists fs train_dir" "\<not> os_path_exists fs test_dir"
    by blast
  then show ?thesis
  proof cases
    case raises
    with assms show ?thesis
      by (simp add: iterate_dir_def train_dir_def test_dir_def)
  next
    case passes
    note mk = passes(1) and a = passes(2,3)
    from a have abs: "train_dir \<notin> set (fs_dirs fs)" "test_dir \<notin> set (fs_dirs fs)"
      by (simp_all add: os_path_exists_def)
    show ?thesis
    proof (cases "list_images fs source_dir")
      case (Inl err)
      with mk assms show ?thesis
        by (simp add: iterate_dir_def train_dir_def [symmetric] test_dir_def [symmetric])
    next
      case (Inr images)
      then have ok: "\<forall>n \<in> set images. n \<noteq> [] \<and> CHR ''/'' \<notin> set n"
        using list_images_names by blast
      from test_loop_absent [OF abs(2) te ok] obtain e1 where
        t: "test_loop rng source_dir test_dir cop_xml 0
              (nat \<lceil>ratio * real (length images)\<rceil>) fs images =
            (fs, images, if nat \<lceil>ratio * real (length images)\<rceil> = 0 then None else Some e1)"
        by blast
      from train_loop_absent [OF abs(1) tr ok] obtain e2 where
        n: "train_loop source_dir des_dir train_dir cop_xml fs images =
            (fs, if images = [] then None else Some e2)"
        by blast
      from mk Inr t n assms have "images = []"
        by (simp add: iterate_dir_def train_dir_def [symmetric] test_dir_def [symmetric] Let_def
            split: if_splits)
      with Inr show ?thesis by simp
    qed
  qed
qed

subsection \<open>What the selection loop would select\<close>

text \<open>
  Apart from the copies, the loop of lines 28 to 35 removes one name per iteration: when
  it ends without an exception after \<open>k\<close> iterations, \<open>k\<close> names are gone from the list
  and the others are left, each once if each was there once.
\<close>

lemma test_loop_selects:
  assumes "test_loop rng source_dir test_dir cop_xml i k fs images = (fs', images', None)"
  shows "k \<le> length images \<and> length images' = length images - k \<and>
         set images' \<subseteq> set images \<and> (distinct images \<longrightarrow> distinct images')"
  using assms
proof (induction k arbitrary: i fs images)
  case 0
  then show ?case by simp
next
  case (Suc k)
  from Suc.prems obtain idx fs1 fs2 where
    r: "random_randint rng i 0 (int (length images) - 1) = Inr idx" and
    lp: "test_loop rng source_dir test_dir cop_xml (Suc i) k fs2
           (remove1 (images ! nat idx) images) = (fs', images', None)"
    by (auto simp: Let_def split: sum.splits if_splits)
  from r have ne: "images \<noteq> []" and idx: "nat idx < length images"
    by (auto simp: random_randint_def split: if_splits)
  then have mem: "images ! nat idx \<in> set images" by simp
  then have len: "length (remove1 (images ! nat idx) images) = length images - 1"
    by (simp add: length_remove1)
  from Suc.IH [OF lp] len ne show ?case
    using set_remove1_subset [of "images ! nat idx" images]
    by (cases images) auto
qed

section \<open>The claims about the partitioner\<close>

text \<open>
  C7 fails on the code. No run copies an image into the test directory: for every
  input the file system is the same after the call as before it. With three images and
  ratio one half, two images should go to \<open>test\<close>; the call raises
  \<open>FileNotFoundError\<close> at the first copy when \<open>train\<close> and \<open>test\<close> are absent, and
  \<open>FileExistsError\<close> when they exist, and \<open>test\<close> holds no file in either case.
\<close>

theorem C7_no_image_is_copied:
  "fst (iterate_dir rng fs source_dir des_dir ratio cop_xml) = fs \<and>
   list_images fs_absent ''src'' = Inr [''a.jpg'', ''b.jpg'', ''c.png''] \<and>
   \<lceil>(1 / 2 :: real) * real (length [''a.jpg'', ''b.jpg'', ''c.png''])\<rceil> = 2 \<and>
   iterate_dir (\<lambda>i. 0) fs_absent ''src'' ''out'' (1 / 2) False =
     (fs_absent, Some FileNotFoundError) \<and>
   files_in fs_absent ''out/test'' = [] \<and>
   iterate_dir (\<lambda>i. 0) fs_present ''src'' ''out'' (1 / 2) False =
     (fs_present, Some FileExistsError) \<and>
   files_in fs_present ''out/test'' = []"
proof -
  have 1: "list_images fs_absent ''src'' = Inr [''a.jpg'', ''b.jpg'', ''c.png'']"
    by code_simp
  have 2: "\<lceil>(1 / 2 :: real) * real (length [''a.jpg'', ''b.jpg'', ''c.png''])\<rceil> = 2"
    by simp
  have 3: "iterate_dir (\<lambda>i. 0) fs_absent ''src'' ''out'' (1 / 2) False =
     (fs_absent, Some FileNotFoundError)"
    by code_simp
  have 4: "files_in fs_absent ''out/test'' = []" by code_simp
  have 5: "iterate_dir (\<lambda>i. 0) fs_present ''src'' ''out'' (1 / 2) False =
     (fs_present, Some FileExistsError)"
    by code_simp
  have 6: "files_in fs_present ''out/test'' = []" by code_simp
  from iterate_dir_unchanged [of rng fs source_dir des_dir ratio cop_xml] 1 2 3 4 5 6
  show ?thesis by blast
qed

text \<open>
  C8 fails on the code. The tests of lines 19 and 21 call \<open>os.makedirs\<close> when the
  directory exists, not when it is absent: no call creates a directory. With \<open>train\<close>
  and \<open>test\<close> absent the tests pass and change nothing, and the first copy raises; with
  them present \<open>os.makedirs\<close> raises \<open>FileExistsError\<close>.
\<close>

theorem C8_directories_not_created:
  "fs_dirs (fst (iterate_dir rng fs source_dir des_dir ratio cop_xml)) = fs_dirs fs \<and>
   \<not> os_path_exists fs_absent ''out/train'' \<and> \<not> os_path_exists fs_absent ''out/test'' \<and>
   make_dirs fs_absent ''out/train'' ''out/test'' = Inr fs_absent \<and>
   iterate_dir (\<lambda>i. 0) fs_absent ''src'' ''out'' 1 False = (fs_absent, Some FileNotFoundError) \<and>
   os_path_exists fs_present ''out/train'' \<and>
   make_dirs fs_present ''out/train'' ''out/test'' = Inl FileExistsError"
proof -
  have 1: "\<not> os_path_exists fs_absent ''out/train''" by code_simp
  have 2: "\<not> os_path_exists fs_absent ''out/test''" by code_simp
  have 3: "make_dirs fs_absent ''out/train'' ''out/test'' = Inr fs_absent" by code_simp
  have 4: "iterate_dir (\<lambda>i. 0) fs_absent ''src'' ''out'' 1 False =
      (fs_absent, Some FileNotFoundError)"
    by code_simp
  have 5: "os_path_exists fs_present ''out/train''" by code_simp
  have 6: "make_dirs fs_present ''out/train'' ''out/test'' = Inl FileExistsError" by code_simp
  have "fs_dirs (fst (iterate_dir rng fs source_dir des_dir ratio cop_xml)) = fs_dirs fs"
    by (simp only: iterate_dir_unchanged)
  with 1 2 3 4 5 6 show ?thesis by blast
qed


end
